theory Spec2Isabelle
  imports Main
begin

section \<open>JavaScript strings\<close>

text \<open>
  The handlers are TypeScript. A JavaScript string is a sequence of UTF-16 code units
  and \<open>s.length\<close> counts code units, so a string is modelled as the list of the
  numeric values of its code units. \<open>ascii\<close> turns an ASCII literal into such a list.
\<close>

type_synonym jstr = "nat list"

definition ascii :: "string \<Rightarrow> jstr" where
  "ascii s = map of_char s"

text \<open>
  The code units that \<open>String.prototype.trim\<close> strips and that the regular expression
  class \<open>\s\<close> matches: TAB, LF, VT, FF, CR, SPACE, NBSP, U+1680, U+2000..U+200A, U+2028,
  U+2029, U+202F, U+205F, U+3000 (the full-width space) and U+FEFF.
\<close>

definition is_ws :: "nat \<Rightarrow> bool" where
  "is_ws c = (c = 9 \<or> c = 10 \<or> c = 11 \<or> c = 12 \<or> c = 13 \<or> c = 32 \<or> c = 160
      \<or> c = 5760 \<or> (8192 \<le> c \<and> c \<le> 8202) \<or> c = 8232 \<or> c = 8233 \<or> c = 8239
      \<or> c = 8287 \<or> c = 12288 \<or> c = 65279)"

definition trim :: "jstr \<Rightarrow> jstr" where
  "trim s = rev (dropWhile is_ws (rev (dropWhile is_ws s)))"

definition is_digit :: "nat \<Rightarrow> bool" where
  "is_digit c = (48 \<le> c \<and> c \<le> 57)"

text \<open>The line terminators, which \<open>.\<close> of a regular expression does not match.\<close>

definition is_line_terminator :: "nat \<Rightarrow> bool" where
  "is_line_terminator c = (c = 10 \<or> c = 13 \<or> c = 8232 \<or> c = 8233)"

text \<open>\<open>Number(ds)\<close> for a string of decimal digits.\<close>

definition digits_value :: "jstr \<Rightarrow> nat" where
  "digits_value ds = foldl (\<lambda>a c. 10 * a + (c - 48)) 0 ds"

section \<open>The weekly planner: \<open>handlers/planner.ts\<close>\<close>

subsection \<open>Sheet, columns and responses\<close>

text \<open>
  The planner sheet is an external collaborator. It is modelled as the store of the
  display values of its cells, a cell being addressed by its column letters and its
  row number, as the A1 notation \<open>`${col}${row}`\<close> of the handler does;
  \<open>getRange(row, 1)\<close> is the cell of column A. Reading never fails and a blank cell reads
  as the empty string, as with the test doubles of \<open>__mocks__/gas-stubs.ts\<close>.
\<close>

type_synonym cell = "string \<times> int"

type_synonym sheet = "cell \<Rightarrow> jstr"

record week_col =
  wc_index :: int
  wc_time :: string
  wc_unit :: string
  wc_guide :: string
  wc_plan :: string

text \<open>\<open>WEEK_COLUMNS\<close> of \<open>lib/columns.ts\<close>.\<close>

definition WEEK_COLUMNS :: "week_col list" where
  "WEEK_COLUMNS =
    [\<lparr>wc_index = 1, wc_time = ''E'', wc_unit = ''F'', wc_guide = ''G'', wc_plan = ''H''\<rparr>,
     \<lparr>wc_index = 2, wc_time = ''M'', wc_unit = ''N'', wc_guide = ''O'', wc_plan = ''P''\<rparr>,
     \<lparr>wc_index = 3, wc_time = ''U'', wc_unit = ''V'', wc_guide = ''W'', wc_plan = ''X''\<rparr>,
     \<lparr>wc_index = 4, wc_time = ''AC'', wc_unit = ''AD'', wc_guide = ''AE'', wc_plan = ''AF''\<rparr>,
     \<lparr>wc_index = 5, wc_time = ''AK'', wc_unit = ''AL'', wc_guide = ''AM'', wc_plan = ''AN''\<rparr>]"

definition PLAN_TEXT_MAX :: nat where
  "PLAN_TEXT_MAX = 52"

text \<open>The error codes of the response envelope.\<close>

datatype error_code =
  NOT_FOUND | BAD_REQUEST | BAD_DATE | TOO_LONG | ALREADY_EXISTS | ROW_NOT_FOUND
  | PRECONDITION_A_EMPTY | PRECONDITION_TIME_EMPTY | CONFIRM_EXPIRED | CONFIRM_MISMATCH
  | BAD_WEEK

text \<open>
  One entry of the \<open>results\<close> array of a batch call: \<open>{ok: true, cell}\<close>, or
  \<open>{ok: false, error: {code}}\<close>, which carries the cell for \<open>ALREADY_EXISTS\<close> only.
\<close>

datatype item_result = Item_ok cell | Item_err error_code "cell option"

text \<open>
  The response envelope: \<open>ng(op, code, message)\<close> is \<open>Ng code\<close> (top-level
  \<open>ok: false\<close>); \<open>ok(op, {updated: true, cell})\<close> is \<open>Ok_single\<close> and
  \<open>ok(op, {updated: true, results})\<close> is \<open>Ok_batch\<close> (both top-level \<open>ok: true\<close>).
\<close>

datatype response = Ng error_code | Ok_single cell | Ok_batch "item_result list"


fun item_ok :: "item_result \<Rightarrow> bool" where
  "item_ok (Item_ok c) = True"
| "item_ok (Item_err e c) = False"

subsection \<open>Requests\<close>

text \<open>
  The fields of a request that \<open>plannerPlanSet\<close> reads (\<open>PlannerPlanSetRequest\<close> and
  \<open>PlanCreateItem\<close> of the domain types). A field that is absent is \<open>None\<close>. Numbers
  are integers; \<open>overwrite\<close> is read for its truthiness.
\<close>

record plan_item =
  it_week_index :: "int option"
  it_plan_text :: "jstr option"
  it_overwrite :: "bool option"
  it_row :: "int option"
  it_book_id :: "jstr option"

record plan_req =
  rq_week_index :: "int option"
  rq_plan_text :: "jstr option"
  rq_overwrite :: "bool option"
  rq_row :: "int option"
  rq_book_id :: "jstr option"
  rq_items :: "plan_item list option"

text \<open>\<open>Number(x || 0)\<close> for an optional number, \<open>String(x ?? "")\<close> for an optional string.\<close>

definition num_or_zero :: "int option \<Rightarrow> int" where
  "num_or_zero x = (case x of None \<Rightarrow> 0 | Some n \<Rightarrow> n)"

definition str_or_empty :: "jstr option \<Rightarrow> jstr" where
  "str_or_empty x = (case x of None \<Rightarrow> [] | Some s \<Rightarrow> s)"

text \<open>Truthiness of an optional boolean and of an optional string.\<close>

definition truthy_bool :: "bool option \<Rightarrow> bool" where
  "truthy_bool x = (case x of None \<Rightarrow> False | Some b \<Rightarrow> b)"

definition truthy_str :: "jstr option \<Rightarrow> bool" where
  "truthy_str x = (case x of None \<Rightarrow> False | Some s \<Rightarrow> s \<noteq> [])"

subsection \<open>\<open>parseBookCode\<close> and \<open>readABCD\<close>\<close>

record parsed_code =
  pc_month_code :: "nat option"
  pc_book_id :: jstr

text \<open>
  The match of \<open>/^(\d{3,4})(.+)$/\<close>: the greedy \<open>\d{3,4}\<close> takes four digits when the
  rest is then a non-empty run without line terminators up to the end of the string, and
  otherwise three digits under the same condition.
\<close>

definition match_code_at :: "nat \<Rightarrow> jstr \<Rightarrow> (jstr \<times> jstr) option" where
  "match_code_at n s =
    (if n \<le> length (takeWhile is_digit s) \<and> n < length s
        \<and> list_all (\<lambda>c. \<not> is_line_terminator c) (drop n s)
     then Some (take n s, drop n s) else None)"

definition match_book_code :: "jstr \<Rightarrow> (jstr \<times> jstr) option" where
  "match_book_code s =
    (case match_code_at 4 s of Some m \<Rightarrow> Some m | None \<Rightarrow> match_code_at 3 s)"

definition parseBookCode :: "jstr \<Rightarrow> parsed_code" where
  "parseBookCode raw =
    (let s = trim raw in
     if s = [] then \<lparr>pc_month_code = None, pc_book_id = []\<rparr>
     else (case match_book_code s of
             None \<Rightarrow> \<lparr>pc_month_code = None, pc_book_id = s\<rparr>
           | Some (code, ident) \<Rightarrow>
               \<lparr>pc_month_code = Some (digits_value code), pc_book_id = ident\<rparr>))"

text \<open>\<open>readABCD\<close>: the display values of A4:D30, one tuple per row.\<close>

definition readABCD :: "sheet \<Rightarrow> (jstr \<times> jstr \<times> jstr \<times> jstr) list" where
  "readABCD sh = map (\<lambda>r. (sh (''A'', r), sh (''B'', r), sh (''C'', r), sh (''D'', r))) [4..30]"

subsection \<open>\<open>plannerPlanSet\<close>, single mode\<close>

text \<open>
  The row lookup by \<open>book_id\<close> of the single mode: the loop over the rows of A4:D30 stops
  at the first blank A cell and returns the first row whose parsed book id is the
  requested one; \<open>r\<close> is the sheet row of the head of the list.
\<close>

fun find_book_row :: "(jstr \<times> jstr \<times> jstr \<times> jstr) list \<Rightarrow> jstr \<Rightarrow> int \<Rightarrow> int option" where
  "find_book_row [] b r = None"
| "find_book_row ((a, bcd) # rest) b r =
    (if trim a = [] then None
     else if pc_book_id (parseBookCode a) = b then Some r
     else find_book_row rest b (r + 1))"

text \<open>
  The row of a single request: \<open>Number(req.row || 0) || null\<close>, and when that is null and
  \<open>req.book_id\<close> is truthy, the lookup by book id.
\<close>

definition resolve_row_single :: "sheet \<Rightarrow> plan_req \<Rightarrow> int option" where
  "resolve_row_single sh req =
    (let row0 = num_or_zero (rq_row req) in
     if row0 \<noteq> 0 then Some row0
     else if truthy_str (rq_book_id req)
       then find_book_row (readABCD sh) (str_or_empty (rq_book_id req)) 4
     else None)"

text \<open>
  The body of \<open>plannerPlanSet\<close> when \<open>req.items\<close> is not an array. Every
  \<open>return ng(...)\<close> leaves the sheet as it is; the only write is the final
  \<open>planCell.setValue(text)\<close>.
\<close>

definition plan_set_single :: "sheet \<Rightarrow> plan_req \<Rightarrow> response \<times> sheet" where
  "plan_set_single sh req =
    (let week_index = num_or_zero (rq_week_index req) in
     if week_index = 0 \<or> week_index < 1 \<or> week_index > 5 then (Ng BAD_REQUEST, sh)
     else
       let text = str_or_empty (rq_plan_text req) in
       if length text > PLAN_TEXT_MAX then (Ng TOO_LONG, sh)
       else
         let week = WEEK_COLUMNS ! nat (week_index - 1)
         in (case resolve_row_single sh req of
               None \<Rightarrow> (Ng ROW_NOT_FOUND, sh)
             | Some r \<Rightarrow>
                 if trim (sh (''A'', r)) = [] then (Ng PRECONDITION_A_EMPTY, sh)
                 else if trim (sh (wc_time week, r)) = [] then (Ng PRECONDITION_TIME_EMPTY, sh)
                 else if \<not> truthy_bool (rq_overwrite req) \<and> trim (sh (wc_plan week, r)) \<noteq> []
                   then (Ng ALREADY_EXISTS, sh)
                 else (Ok_single (wc_plan week, r), sh((wc_plan week, r) := text))))"

subsection \<open>\<open>plannerPlanSet\<close>, batch mode\<close>

record prepared =
  pr_week_index :: int
  pr_row :: int
  pr_text :: jstr
  pr_cell :: cell

record bucket =
  bk_col :: string
  bk_rows :: "int list"
  bk_values :: "jstr list"

text \<open>
  \<open>bookRowMap\<close>: the loop over A4:D30 stops at the first blank A cell and maps every
  non-empty parsed book id to its row, a later row replacing an earlier one.
\<close>

fun build_book_row_map ::
  "(jstr \<times> jstr \<times> jstr \<times> jstr) list \<Rightarrow> int \<Rightarrow> (jstr \<rightharpoonup> int) \<Rightarrow> (jstr \<rightharpoonup> int)" where
  "build_book_row_map [] r m = m"
| "build_book_row_map ((a, bcd) # rest) r m =
    (if trim a = [] then m
     else let b = pc_book_id (parseBookCode (trim a)) in
       build_book_row_map rest (r + 1) (if b \<noteq> [] then m(b \<mapsto> r) else m))"

text \<open>
  \<open>getCurrentPlan\<close> memoises the display value of a plan cell in \<open>currentPlanCache\<close>.
\<close>

definition getCurrentPlan :: "sheet \<Rightarrow> (cell \<rightharpoonup> jstr) \<Rightarrow> cell \<Rightarrow> jstr \<times> (cell \<rightharpoonup> jstr)" where
  "getCurrentPlan sh cache k =
    (case cache k of Some v \<Rightarrow> (v, cache) | None \<Rightarrow> (sh k, cache(k \<mapsto> sh k)))"

text \<open>
  The row of an item: \<open>Number(it?.row || 0) || 0\<close>, and when that is 0 and the item has a
  truthy \<open>book_id\<close>, \<open>Number(bookRowMap[String(it.book_id)]) || 0\<close>.
\<close>

definition resolve_row_batch :: "(jstr \<rightharpoonup> int) \<Rightarrow> plan_item \<Rightarrow> int" where
  "resolve_row_batch bookRowMap it =
    (let row0 = num_or_zero (it_row it) in
     if row0 \<noteq> 0 then row0
     else if truthy_str (it_book_id it)
       then (case bookRowMap (str_or_empty (it_book_id it)) of None \<Rightarrow> 0 | Some r \<Rightarrow> r)
     else 0)"

text \<open>\<open>Boolean(it?.overwrite ?? req.overwrite ?? false)\<close>.\<close>

definition item_overwrite :: "bool option \<Rightarrow> plan_item \<Rightarrow> bool" where
  "item_overwrite req_overwrite it =
    (case it_overwrite it of Some b \<Rightarrow> b | None \<Rightarrow> truthy_bool req_overwrite)"

text \<open>
  The checks of one loop iteration. Each \<open>results.push({ok: false, ...}); continue\<close> is a
  result without a prepared write; the last branch is the item that goes on to the
  buckets. The cache is returned as the iteration leaves it.
\<close>

definition check_item ::
  "sheet \<Rightarrow> bool option \<Rightarrow> (jstr \<rightharpoonup> int) \<Rightarrow> (cell \<rightharpoonup> jstr) \<Rightarrow> plan_item
    \<Rightarrow> (item_result \<times> prepared option) \<times> (cell \<rightharpoonup> jstr)" where
  "check_item sh req_overwrite bookRowMap cache it =
    (let wk = num_or_zero (it_week_index it);
         txt = str_or_empty (it_plan_text it);
         ow = item_overwrite req_overwrite it
     in
     if wk = 0 \<or> wk < 1 \<or> wk > 5 then ((Item_err BAD_WEEK None, None), cache)
     else if length txt > PLAN_TEXT_MAX then ((Item_err TOO_LONG None, None), cache)
     else
       let row = resolve_row_batch bookRowMap it in
       if row = 0 then ((Item_err ROW_NOT_FOUND None, None), cache)
       else
         let week = WEEK_COLUMNS ! nat (wk - 1) in
         if trim (sh (''A'', row)) = [] then ((Item_err PRECONDITION_A_EMPTY None, None), cache)
         else if trim (sh (wc_time week, row)) = []
           then ((Item_err PRECONDITION_TIME_EMPTY None, None), cache)
         else
           let cellA1 = (wc_plan week, row);
               cur = fst (getCurrentPlan sh cache cellA1);
               cache' = snd (getCurrentPlan sh cache cellA1)
           in
           if \<not> ow \<and> trim cur \<noteq> [] then ((Item_err ALREADY_EXISTS (Some cellA1), None), cache')
           else ((Item_ok cellA1,
                  Some \<lparr>pr_week_index = wk, pr_row = row, pr_text = txt, pr_cell = cellA1\<rparr>),
                 cache'))"

text \<open>
  \<open>buckets\<close> is an object keyed by the plan column; its entries keep the order in which
  the keys were first used. An accepted item appends its row and text to the bucket of
  its column.
\<close>

definition bucket_push :: "string \<Rightarrow> int \<Rightarrow> jstr \<Rightarrow> (string \<times> bucket) list \<Rightarrow> (string \<times> bucket) list" where
  "bucket_push key row txt bs =
    (let bs1 = (if map_of bs key = None
                then bs @ [(key, \<lparr>bk_col = key, bk_rows = [], bk_values = []\<rparr>)] else bs)
     in map (\<lambda>(k, b). if k = key
               then (k, b\<lparr>bk_rows := bk_rows b @ [row], bk_values := bk_values b @ [txt]\<rparr>)
               else (k, b)) bs1)"

record batch_state =
  bs_prepared :: "prepared list"
  bs_results :: "item_result list"
  bs_cache :: "cell \<rightharpoonup> jstr"
  bs_buckets :: "(string \<times> bucket) list"

definition init_state :: batch_state where
  "init_state = \<lparr>bs_prepared = [], bs_results = [], bs_cache = Map.empty, bs_buckets = []\<rparr>"

definition process_item ::
  "sheet \<Rightarrow> bool option \<Rightarrow> (jstr \<rightharpoonup> int) \<Rightarrow> batch_state \<Rightarrow> plan_item \<Rightarrow> batch_state" where
  "process_item sh req_overwrite bookRowMap st it =
    (let chk = check_item sh req_overwrite bookRowMap (bs_cache st) it in
     (case snd (fst chk) of
        None \<Rightarrow> st\<lparr>bs_results := bs_results st @ [fst (fst chk)], bs_cache := snd chk\<rparr>
      | Some p \<Rightarrow>
          st\<lparr>bs_prepared := bs_prepared st @ [p],
             bs_results := bs_results st @ [fst (fst chk)],
             bs_cache := snd chk,
             bs_buckets := bucket_push (fst (pr_cell p)) (pr_row p) (pr_text p) (bs_buckets st)\<rparr>))"

text \<open>
  \<open>range.setValues\<close> on the column range that starts at \<open>firstRow\<close> and is as high as the
  block: the cells of the range take the values of the block, every other cell is kept.
\<close>

definition set_values :: "string \<Rightarrow> int \<Rightarrow> jstr list \<Rightarrow> sheet \<Rightarrow> sheet" where
  "set_values col firstRow vals sh =
    (\<lambda>(c, r). if c = col \<and> firstRow \<le> r \<and> r < firstRow + int (length vals)
               then vals ! nat (r - firstRow) else sh (c, r))"

text \<open>
  The inner loop of \<open>writeBlock\<close>: the length of the first block of consecutive rows of
  the sorted pairs.
\<close>

fun block_len :: "(int \<times> jstr) list \<Rightarrow> nat" where
  "block_len [] = 0"
| "block_len [p] = 1"
| "block_len (p # q # ps) = (if fst q = fst p + 1 then Suc (block_len (q # ps)) else 1)"

lemma block_len_pos: "ps \<noteq> [] \<Longrightarrow> 0 < block_len ps"
  by (induction ps rule: block_len.induct) auto

text \<open>The outer loop of \<open>writeBlock\<close>: one \<open>setValues\<close> per block.\<close>

function write_blocks :: "string \<Rightarrow> (int \<times> jstr) list \<Rightarrow> sheet \<Rightarrow> sheet" where
  "write_blocks col [] sh = sh"
| "write_blocks col (p # ps) sh =
    (let n = block_len (p # ps); block = take n (p # ps) in
     write_blocks col (drop n (p # ps)) (set_values col (fst p) (map snd block) sh))"
  by pat_completeness auto
termination
proof (relation "measure (\<lambda>(col, ps, sh). length ps)")
  show "wf (measure (\<lambda>(col, ps, sh). length ps))" by simp
next
  fix col :: string and p :: "int \<times> jstr" and ps and sh :: sheet and n :: nat
    and block :: "(int \<times> jstr) list"
  assume "n = block_len (p # ps)"
  then have "0 < n" using block_len_pos [of "p # ps"] by simp
  then show "((col, drop n (p # ps), set_values col (fst p) (map snd block) sh), col, p # ps, sh)
      \<in> measure (\<lambda>(col, ps, sh). length ps)"
    by simp
qed

text \<open>
  \<open>writeBlock\<close>: the rows and values are paired, sorted by row (the sort of the V8
  runtime is stable, as \<open>sort_key\<close> is) and written block by block.
\<close>

definition writeBlock :: "string \<Rightarrow> int list \<Rightarrow> jstr list \<Rightarrow> sheet \<Rightarrow> sheet" where
  "writeBlock col rows vals sh = write_blocks col (sort_key fst (zip rows vals)) sh"

definition write_buckets :: "(string \<times> bucket) list \<Rightarrow> sheet \<Rightarrow> sheet" where
  "write_buckets bs sh =
    foldl (\<lambda>s kb. if bk_rows (snd kb) \<noteq> []
                   then writeBlock (bk_col (snd kb)) (bk_rows (snd kb)) (bk_values (snd kb)) s
                   else s) sh bs"

definition plan_set_batch :: "sheet \<Rightarrow> plan_req \<Rightarrow> plan_item list \<Rightarrow> response \<times> sheet" where
  "plan_set_batch sh req its =
    (let bookRowMap = build_book_row_map (readABCD sh) 4 Map.empty;
         st = foldl (process_item sh (rq_overwrite req) bookRowMap) init_state its
     in (Ok_batch (bs_results st), write_buckets (bs_buckets st) sh))"

text \<open>
  \<open>plannerPlanSet\<close>. Its first argument is what \<open>openPlannerSheet(req)\<close> returned: the
  planner sheet, or \<open>None\<close> for null. The second component of the result is the sheet
  after the call.
\<close>

definition plannerPlanSet :: "sheet option \<Rightarrow> plan_req \<Rightarrow> response \<times> sheet option" where
  "plannerPlanSet opened req =
    (case opened of
       None \<Rightarrow> (Ng NOT_FOUND, None)
     | Some sh \<Rightarrow>
         (case rq_items req of
            None \<Rightarrow> (fst (plan_set_single sh req), Some (snd (plan_set_single sh req)))
          | Some its \<Rightarrow> (fst (plan_set_batch sh req its), Some (snd (plan_set_batch sh req its)))))"

subsection \<open>Notions used to state the properties of the batch mode\<close>

text \<open>
  The cache agrees with the sheet; \<open>book_rows\<close> is the \<open>bookRowMap\<close> that a batch call
  builds; \<open>item_out\<close> is the outcome of the loop body for an item on an empty cache and
  \<open>queue_item\<close> its effect on the buckets.
\<close>

definition cache_ok :: "sheet \<Rightarrow> (cell \<rightharpoonup> jstr) \<Rightarrow> bool" where
  "cache_ok sh c = (\<forall>k v. c k = Some v \<longrightarrow> v = sh k)"

definition book_rows :: "sheet \<Rightarrow> (jstr \<rightharpoonup> int)" where
  "book_rows sh = build_book_row_map (readABCD sh) 4 Map.empty"

definition item_out ::
  "sheet \<Rightarrow> bool option \<Rightarrow> (jstr \<rightharpoonup> int) \<Rightarrow> plan_item \<Rightarrow> item_result \<times> prepared option" where
  "item_out sh ow brm it = fst (check_item sh ow brm Map.empty it)"

definition queue_item ::
  "(string \<times> bucket) list \<Rightarrow> item_result \<times> prepared option \<Rightarrow> (string \<times> bucket) list" where
  "queue_item bs r =
    (case snd r of None \<Rightarrow> bs
     | Some p \<Rightarrow> bucket_push (fst (pr_cell p)) (pr_row p) (pr_text p) bs)"

text \<open>
  The entries of a batch response. The write phase: \<open>seq_write\<close> writes the pairs of a row
  and a value one after the other into a column, \<open>consecutive\<close> says that the rows of a
  block follow each other from a first row; \<open>bucket_entries\<close> are the pairs that the bucket
  of a column holds, \<open>buckets_wf\<close> is the invariant of the buckets (one bucket for each
  column, as many rows as values), \<open>accepted\<close> are the prepared writes of the accepted
  items and \<open>entries_of\<close> those of them that go to a column.
\<close>

fun results_of :: "response \<Rightarrow> item_result list" where
  "results_of (Ok_batch rs) = rs"
| "results_of (Ok_single c) = []"
| "results_of (Ng e) = []"

definition seq_write :: "string \<Rightarrow> sheet \<Rightarrow> (int \<times> jstr) list \<Rightarrow> sheet" where
  "seq_write col sh ps = foldl (\<lambda>s p. s((col, fst p) := snd p)) sh ps"

fun consecutive :: "int \<Rightarrow> (int \<times> jstr) list \<Rightarrow> bool" where
  "consecutive r [] = True"
| "consecutive r (p # ps) = (fst p = r \<and> consecutive (r + 1) ps)"

definition bucket_entries :: "(string \<times> bucket) list \<Rightarrow> string \<Rightarrow> (int \<times> jstr) list" where
  "bucket_entries bs c =
    (case map_of bs c of None \<Rightarrow> [] | Some b \<Rightarrow> zip (bk_rows b) (bk_values b))"

definition buckets_wf :: "(string \<times> bucket) list \<Rightarrow> bool" where
  "buckets_wf bs = (distinct (map fst bs)
     \<and> list_all (\<lambda>kb. bk_col (snd kb) = fst kb
          \<and> length (bk_rows (snd kb)) = length (bk_values (snd kb))) bs)"

definition accepted :: "(item_result \<times> prepared option) list \<Rightarrow> prepared list" where
  "accepted outs = List.map_filter snd outs"

definition entries_of :: "prepared list \<Rightarrow> string \<Rightarrow> (int \<times> jstr) list" where
  "entries_of ps c = map (\<lambda>p. (pr_row p, pr_text p)) (filter (\<lambda>p. fst (pr_cell p) = c) ps)"

subsection \<open>Sample data\<close>

text \<open>
  The planner sheet of \<open>handlers/__tests__/planner.test.ts\<close>: three books in A4:A6,
  weekly minutes for the weeks 1 to 4, plan texts for the weeks 1 and 2.
\<close>

definition sample_rows :: "jstr \<Rightarrow> jstr \<Rightarrow> jstr \<Rightarrow> int \<Rightarrow> jstr" where
  "sample_rows x4 x5 x6 r = (if r = 4 then x4 else if r = 5 then x5 else if r = 6 then x6 else [])"

definition sample_sheet :: sheet where
  "sample_sheet = (\<lambda>(c, r).
     if c = ''A'' then sample_rows (ascii ''258gM001'') (ascii ''258gE001'') (ascii ''259gP001'') r
     else if c = ''E'' \<or> c = ''M'' \<or> c = ''U'' \<or> c = ''AC''
       then sample_rows (ascii ''120'') (ascii ''60'') (ascii ''90'') r
     else if c = ''H'' then sample_rows (ascii ''1-20'') (ascii ''1-10'') (ascii ''1-5'') r
     else if c = ''P'' then sample_rows (ascii ''21-40'') (ascii ''11-20'') [] r
     else [])"

definition no_item :: plan_item where
  "no_item = \<lparr>it_week_index = None, it_plan_text = None, it_overwrite = None,
     it_row = None, it_book_id = None\<rparr>"

definition no_req :: plan_req where
  "no_req = \<lparr>rq_week_index = None, rq_plan_text = None, rq_overwrite = None,
     rq_row = None, rq_book_id = None, rq_items = None\<rparr>"


definition week6_item :: plan_item where
  "week6_item = no_item\<lparr>it_week_index := Some 6, it_row := Some 4, it_plan_text := Some (ascii ''test'')\<rparr>"

definition week3_item :: plan_item where
  "week3_item = no_item\<lparr>it_week_index := Some 3, it_row := Some 4, it_plan_text := Some (ascii ''41-60'')\<rparr>"

definition long_text :: jstr where
  "long_text = replicate 53 97"

definition max_text :: jstr where
  "max_text = replicate 52 97"

definition long_req :: "int \<Rightarrow> plan_req" where
  "long_req wk = no_req\<lparr>rq_week_index := Some wk, rq_row := Some 4, rq_plan_text := Some long_text\<rparr>"

definition long_item :: "int \<Rightarrow> plan_item" where
  "long_item wk = no_item\<lparr>it_week_index := Some wk, it_row := Some 4, it_plan_text := Some long_text\<rparr>"

definition overwrite_req :: plan_req where
  "overwrite_req = no_req\<lparr>rq_week_index := Some 1, rq_row := Some 4,
     rq_plan_text := Some (ascii ''41-60''), rq_overwrite := Some True\<rparr>"

definition book_item :: plan_item where
  "book_item = no_item\<lparr>it_week_index := Some 1, it_book_id := Some (ascii ''gE001''),
     it_plan_text := Some (ascii ''21-30'')\<rparr>"

section \<open>Normalization and header matching: \<open>lib/common.ts\<close>, \<open>lib/sheet_utils.ts\<close>\<close>

text \<open>
  Neither file is among the source files; only their tests (\<open>common.test.ts\<close>,
  \<open>sheet_utils.test.ts\<close>) and their callers are.
\<close>

text \<open>The decimal digits of a number, as \<open>String(n)\<close> writes them.\<close>

fun decimal :: "nat \<Rightarrow> jstr" where
  "decimal n = (if n < 10 then [48 + n] else decimal (n div 10) @ [48 + n mod 10])"

declare decimal.simps [simp del]

text \<open>
  The compatibility decompositions of NFKC that the spec and the tests name, per code
  unit: the full-width forms U+FF01..U+FF5E become U+0021..U+007E, the full-width space
  U+3000 and the no-break space become a space, the Roman numerals U+2160..U+216B and
  U+2170..U+217B become Latin letters, the circled numbers U+2460..U+2473 become decimal
  digits. Every other code unit is kept: the tables of Unicode are no part of the
  repository, and canonical composition is not modelled.
\<close>

definition roman_numerals :: "jstr list" where
  "roman_numerals = map ascii [''I'', ''II'', ''III'', ''IV'', ''V'', ''VI'', ''VII'', ''VIII'',
     ''IX'', ''X'', ''XI'', ''XII'']"

text \<open>\<open>toLowerCase\<close> on the letters A..Z.\<close>

definition lower_unit :: "nat \<Rightarrow> nat" where
  "lower_unit c = (if 65 \<le> c \<and> c \<le> 90 then c + 32 else c)"

definition nfkc_unit :: "nat \<Rightarrow> jstr" where
  "nfkc_unit c =
    (if 65281 \<le> c \<and> c \<le> 65374 then [c - 65248]
     else if c = 12288 \<or> c = 160 then [32]
     else if 8544 \<le> c \<and> c \<le> 8555 then roman_numerals ! (c - 8544)
     else if 8560 \<le> c \<and> c \<le> 8571 then map lower_unit (roman_numerals ! (c - 8560))
     else if 9312 \<le> c \<and> c \<le> 9331 then decimal (c - 9311)
     else [c])"

text \<open>
  Modelled from the spec: \<open>normalize\<close> of \<open>lib/common.ts\<close>, which is not among the
  source files. "Converts to string, trims, Unicode-normalizes (compose
  full-width/half-width forms, fold case), and removes all whitespace (including
  full-width space)", in this order. The name \<open>normalize\<close> is taken in HOL.
\<close>

definition normalize_str :: "jstr \<Rightarrow> jstr" where
  "normalize_str s = filter (\<lambda>c. \<not> is_ws c) (map lower_unit (concat (map nfkc_unit (trim s))))"

text \<open>
  Modelled from the spec: \<open>headerKey\<close> of \<open>lib/sheet_utils.ts\<close>, which is not among the
  source files. "Same as \<open>normalize\<close> but used specifically for header comparison".
\<close>

definition headerKey :: "jstr \<Rightarrow> jstr" where
  "headerKey s = normalize_str s"

text \<open>The first position of a key in a list of keys from position \<open>i\<close> on, or -1.\<close>

fun index_from :: "jstr \<Rightarrow> jstr list \<Rightarrow> nat \<Rightarrow> int" where
  "index_from k [] i = -1"
| "index_from k (h # hs) i = (if h = k then int i else index_from k hs (Suc i))"

text \<open>
  Modelled from the spec: \<open>pickCol\<close> of \<open>lib/sheet_utils.ts\<close> (the spec's
  \<open>pickColumn\<close>), which is not among the source files. "Returns the position of the
  first header (in header order) matching any candidate (in candidate order),
  comparison via \<open>headerKey\<close>. Returns -1 if headers or candidates empty, or no match."
  The candidates are tried in their order and the first one that matches a header
  decides: this is the reading the repository's test "should find first match when
  multiple candidates exist" fixes, where the candidates \<open>["tangen-fuka", "sankousho-ID"]\<close>
  (written in Japanese there) give the column 3 of the first candidate although the
  second candidate matches the column 0.
\<close>

fun pick_from :: "jstr list \<Rightarrow> jstr list \<Rightarrow> int" where
  "pick_from keys [] = -1"
| "pick_from keys (c # cs) =
    (if 0 \<le> index_from (headerKey c) keys 0 then index_from (headerKey c) keys 0
     else pick_from keys cs)"

definition pickCol :: "jstr list \<Rightarrow> jstr list \<Rightarrow> int" where
  "pickCol headers candidates = pick_from (map headerKey headers) candidates"

text \<open>
  The reading of claim C7: the position of the first header, in header order, whose key
  is the key of any candidate.
\<close>

fun first_header_among :: "jstr list \<Rightarrow> jstr list \<Rightarrow> nat \<Rightarrow> int" where
  "first_header_among [] cs i = -1"
| "first_header_among (h # hs) cs i =
    (if headerKey h \<in> set (map headerKey cs) then int i else first_header_among hs cs (Suc i))"


definition pickColumn_header_order :: "jstr list \<Rightarrow> jstr list \<Rightarrow> int" where
  "pickColumn_header_order headers candidates = first_header_among headers candidates 0"

subsection \<open>Sample data of \<open>sheet_utils.test.ts\<close> and \<open>common.test.ts\<close>\<close>

text \<open>
  The Japanese words of the tests, as UTF-16 code units: \<open>sankousho\<close> is the word for
  "reference book" (U+53C2 U+8003 U+66F8), \<open>mei\<close> "name" (U+540D), \<open>kyouka\<close> "subject"
  (U+6559 U+79D1), \<open>tangen_fuka\<close> "unit load" (U+5358 U+5143 U+8CA0 U+8377), \<open>taitoru\<close>
  "title" (U+30BF U+30A4 U+30C8 U+30EB), \<open>sho\<close> "book" (U+66F8).
\<close>

definition sankousho :: jstr where
  "sankousho = [21442, 32771, 26360]"

definition kyouka :: jstr where
  "kyouka = [25945, 31185]"

definition tangen_fuka :: jstr where
  "tangen_fuka = [21336, 20803, 36000, 33655]"

definition taitoru :: jstr where
  "taitoru = [12479, 12452, 12488, 12523]"

definition book_headers :: "jstr list" where
  "book_headers = [sankousho @ ascii ''ID'', sankousho @ [21517], kyouka, tangen_fuka]"


section \<open>Student resolution: \<open>lib/student_resolver.ts\<close>\<close>

text \<open>
  The column name candidates and keywords of the file. The Japanese words are written
  as UTF-16 code units: \<open>seito\<close> "student" (U+751F U+5F92), \<open>supiido\<close> "speed"
  (U+30B9 U+30D4 U+30FC U+30C9), \<open>purannaa\<close> "planner" (U+30D7 U+30E9 U+30F3 U+30CA
  U+30FC), \<open>supureddoshiito\<close> "spreadsheet" (U+30B9 U+30D7 U+30EC U+30C3 U+30C9 U+30B7
  U+30FC U+30C8), \<open>rinku\<close> "link" (U+30EA U+30F3 U+30AF).
\<close>

definition seito :: jstr where
  "seito = [29983, 24466]"

definition supiido :: jstr where
  "supiido = [12473, 12500, 12540, 12489]"

definition purannaa :: jstr where
  "purannaa = [12503, 12521, 12531, 12490, 12540]"

definition supureddoshiito :: jstr where
  "supureddoshiito = [12473, 12503, 12524, 12483, 12489, 12471, 12540, 12488]"

definition rinku :: jstr where
  "rinku = [12522, 12531, 12463]"

definition STUDENT_ID_COLUMNS :: "jstr list" where
  "STUDENT_ID_COLUMNS = [seito @ ascii ''ID'', ascii ''ID'', ascii ''id'']"

definition PLANNER_ID_COLUMNS :: "jstr list" where
  "PLANNER_ID_COLUMNS = [supiido @ purannaa @ ascii ''ID'', ascii ''PlannerSheetId'',
     ascii ''planner_sheet_id'', purannaa @ ascii ''ID'']"

definition PLANNER_LINK_COLUMNS :: "jstr list" where
  "PLANNER_LINK_COLUMNS = [supureddoshiito, supiido @ purannaa, ascii ''PlannerLink'',
     purannaa @ rinku, supureddoshiito @ ascii ''URL'']"

definition PLANNER_LINK_KEYWORDS :: "jstr list" where
  "PLANNER_LINK_KEYWORDS = [supureddoshiito, ascii ''planner'', purannaa]"

text \<open>
  \<open>extractSpreadsheetIdFromUrl\<close>: the leftmost match of \<open>/[-\w]{25,}/\<close>, which is the first
  maximal run of the characters \<open>-\<close>, \<open>_\<close>, digits and ASCII letters that has at least 25
  of them.
\<close>

definition is_id_char :: "nat \<Rightarrow> bool" where
  "is_id_char c = (c = 45 \<or> c = 95 \<or> is_digit c \<or> (65 \<le> c \<and> c \<le> 90) \<or> (97 \<le> c \<and> c \<le> 122))"

function extractSpreadsheetIdFromUrl :: "jstr \<Rightarrow> jstr option" where
  "extractSpreadsheetIdFromUrl url =
    (case dropWhile (\<lambda>c. \<not> is_id_char c) url of
       [] \<Rightarrow> None
     | c # cs \<Rightarrow>
         if 25 \<le> length (takeWhile is_id_char (c # cs)) then Some (takeWhile is_id_char (c # cs))
         else extractSpreadsheetIdFromUrl (dropWhile is_id_char (c # cs)))"
  by pat_completeness auto
termination
proof (relation "measure length")
  show "wf (measure length)" by simp
next
  fix url :: jstr and c cs
  assume a: "dropWhile (\<lambda>c. \<not> is_id_char c) url = c # cs"
  then have "is_id_char c"
    using hd_dropWhile [of "\<lambda>c. \<not> is_id_char c" url] by simp
  then have "length (dropWhile is_id_char (c # cs)) \<le> length cs"
    by (simp add: length_dropWhile_le)
  moreover have "length (c # cs) \<le> length url"
    using a length_dropWhile_le [of "\<lambda>c. \<not> is_id_char c" url] by simp
  ultimately show "(dropWhile is_id_char (c # cs), url) \<in> measure length"
    by simp
qed

declare extractSpreadsheetIdFromUrl.simps [simp del]

text \<open>
  What the resolver reads. A sheet access either returns or throws. The students file
  and sheet (\<open>SpreadsheetApp.openById\<close>, \<open>getSheetByName(..) || getSheets()[0]\<close>) give a
  sheet, no sheet, or throw. A sheet has its values, every cell as \<open>String(..)\<close> renders
  it, and for the cell at a 0-based row and column the link URL of its rich text
  (\<open>rich && rich.getLinkUrl()\<close>: \<open>None\<close> when there is none).
\<close>

datatype 'a access = Throws | Returns 'a

record student_sheet =
  ss_values :: "jstr list list access"
  ss_link_url :: "nat \<Rightarrow> nat \<Rightarrow> jstr option access"

record resolve_req =
  rr_spreadsheet_id :: "jstr option"
  rr_student_id :: "jstr option"

text \<open>\<open>String(row[i])\<close>, which is \<open>"undefined"\<close> when the row has no such cell.\<close>

definition cell_at :: "jstr list \<Rightarrow> nat \<Rightarrow> jstr" where
  "cell_at row i = (if i < length row then row ! i else ascii ''undefined'')"

text \<open>\<open>hk.includes(k)\<close>.\<close>

definition includes_str :: "jstr \<Rightarrow> jstr \<Rightarrow> bool" where
  "includes_str hk k = list_ex (\<lambda>t. take (length k) t = k) (map (\<lambda>i. drop i hk) [0..<Suc (length hk)])"

text \<open>
  The partial match fallback for the link column: \<open>findIndex\<close> over the normalized
  headers, from position \<open>i\<close> on.
\<close>

fun find_keyword_header :: "jstr list \<Rightarrow> nat \<Rightarrow> int" where
  "find_keyword_header [] i = -1"
| "find_keyword_header (hk # hks) i =
    (if list_ex (\<lambda>keyword. includes_str hk (headerKey keyword)) PLANNER_LINK_KEYWORDS then int i
     else find_keyword_header hks (Suc i))"

definition link_column :: "jstr list \<Rightarrow> int" where
  "link_column headers =
    (let idxLink = pickCol headers PLANNER_LINK_COLUMNS in
     if idxLink < 0 then
       (let pos = find_keyword_header (map headerKey headers) 0 in
        if 0 \<le> pos then pos else idxLink)
     else idxLink)"

text \<open>
  \<open>extractSpreadsheetIdFromLink\<close>: the link URL of the rich text when there is a
  non-empty one, otherwise the trimmed plain text; when the rich text access throws,
  the \<open>catch\<close> falls back to the plain text.
\<close>

definition extractSpreadsheetIdFromLink ::
  "student_sheet \<Rightarrow> nat \<Rightarrow> nat \<Rightarrow> jstr list list \<Rightarrow> jstr option" where
  "extractSpreadsheetIdFromLink sh rowIndex colIndex vals =
    (case ss_link_url sh rowIndex colIndex of
       Throws \<Rightarrow> extractSpreadsheetIdFromUrl (trim (cell_at (vals ! rowIndex) colIndex))
     | Returns link \<Rightarrow>
         extractSpreadsheetIdFromUrl
           (if truthy_str link then str_or_empty link
            else trim (cell_at (vals ! rowIndex) colIndex)))"

text \<open>The id of a row: \<open>String(idxId >= 0 ? values[r][idxId] : "").trim()\<close>.\<close>

definition row_student_id :: "int \<Rightarrow> jstr list \<Rightarrow> jstr" where
  "row_student_id idxId row = trim (if 0 \<le> idxId then cell_at row (nat idxId) else [])"

text \<open>What the loop returns at the row \<open>r\<close> of the student.\<close>

definition planner_id_of_row ::
  "student_sheet \<Rightarrow> jstr list list \<Rightarrow> int \<Rightarrow> int \<Rightarrow> nat \<Rightarrow> jstr option" where
  "planner_id_of_row sh vals idxPlannerId idxLink r =
    (let plannerId = (if 0 \<le> idxPlannerId then trim (cell_at (vals ! r) (nat idxPlannerId)) else [])
     in if plannerId \<noteq> [] then Some plannerId
        else if 0 \<le> idxLink then extractSpreadsheetIdFromLink sh r (nat idxLink) vals
        else None)"

text \<open>
  The loop \<open>for (let r = 1; r < values.length; r++)\<close>, from the row \<open>r\<close> on: \<open>n\<close> counts the
  rows that are left. The first row with the id of the student decides.
\<close>

fun search_rows ::
  "student_sheet \<Rightarrow> jstr list list \<Rightarrow> jstr \<Rightarrow> int \<Rightarrow> int \<Rightarrow> int \<Rightarrow> nat \<Rightarrow> nat \<Rightarrow> jstr option" where
  "search_rows sh vals studentId idxId idxPlannerId idxLink r 0 = None"
| "search_rows sh vals studentId idxId idxPlannerId idxLink r (Suc n) =
    (let ident = row_student_id idxId (vals ! r) in
     if ident = [] \<or> ident \<noteq> studentId
     then search_rows sh vals studentId idxId idxPlannerId idxLink (Suc r) n
     else planner_id_of_row sh vals idxPlannerId idxLink r)"

text \<open>
  \<open>resolveSpreadsheetIdByStudent\<close>. The second argument is what the accesses to the
  students file give; everything after the two early returns runs inside \<open>try\<close>, whose
  \<open>catch\<close> returns null.
\<close>

definition resolveSpreadsheetIdByStudent ::
  "resolve_req \<Rightarrow> student_sheet option access \<Rightarrow> jstr option" where
  "resolveSpreadsheetIdByStudent req students =
    (if truthy_str (rr_spreadsheet_id req) then Some (str_or_empty (rr_spreadsheet_id req))
     else
       let studentId = trim (str_or_empty (rr_student_id req)) in
       if studentId = [] then None
       else (case students of
               Throws \<Rightarrow> None
             | Returns None \<Rightarrow> None
             | Returns (Some sh) \<Rightarrow>
                 (case ss_values sh of
                    Throws \<Rightarrow> None
                  | Returns vals \<Rightarrow>
                      if length vals < 2 then None
                      else
                        let headers = vals ! 0;
                            idxId = pickCol headers STUDENT_ID_COLUMNS;
                            idxPlannerId = pickCol headers PLANNER_ID_COLUMNS;
                            idxLink = link_column headers
                        in search_rows sh vals studentId idxId idxPlannerId idxLink 1
                             (length vals - 1))))"

subsection \<open>Sample data\<close>

text \<open>
  A students sheet with a student \<open>S001\<close> whose link cell holds the URL of a spreadsheet
  as plain text, and whose rich text cannot be read.
\<close>

definition sample_sheet_id :: jstr where
  "sample_sheet_id = ascii ''1AbCdEfGhIjKlMnOpQrStUvWxYz_0123-45''"

definition sample_values :: "jstr list list" where
  "sample_values =
     [[seito @ ascii ''ID'', ascii ''PlannerLink''],
      [ascii ''S001'', ascii ''https://docs.google.com/spreadsheets/d/'' @ sample_sheet_id @ ascii ''/edit'']]"

definition sample_students :: student_sheet where
  "sample_students = \<lparr>ss_values = Returns sample_values, ss_link_url = (\<lambda>r c. Throws)\<rparr>"

definition sample_resolve_req :: resolve_req where
  "sample_resolve_req = \<lparr>rr_spreadsheet_id = None, rr_student_id = Some (ascii '' S001 '')\<rparr>"

text \<open>A request that names the spreadsheet itself.\<close>

definition direct_req :: resolve_req where
  "direct_req = \<lparr>rr_spreadsheet_id = Some (ascii ''sheet-1''), rr_student_id = None\<rparr>"

section \<open>The next id of a prefix: \<open>lib/id_rules.ts\<close>\<close>

text \<open>
  The file is not among the source files; its tests (\<open>id_rules.test.ts\<close>) are. A cell of
  the table is a string or something else (a number, null, undefined).
\<close>

datatype cell_value = Str jstr | Other

text \<open>
  The cell of a row at the id column; a negative or out-of-range column gives no string.
\<close>

definition cell_of_row :: "cell_value list \<Rightarrow> int \<Rightarrow> cell_value" where
  "cell_of_row row c = (if 0 \<le> c \<and> nat c < length row then row ! nat c else Other)"

text \<open>
  The numeric suffix of a cell for a prefix: the cell is a string that begins with the
  prefix and goes on with digits to its end, at least one.
\<close>

definition id_suffix :: "jstr \<Rightarrow> cell_value \<Rightarrow> nat option" where
  "id_suffix prefix c =
    (case c of
       Other \<Rightarrow> None
     | Str s \<Rightarrow>
         if take (length prefix) s = prefix \<and> drop (length prefix) s \<noteq> []
            \<and> list_all is_digit (drop (length prefix) s)
         then Some (digits_value (drop (length prefix) s)) else None)"

text \<open>The scan of the rows with the running maximum \<open>m\<close>.\<close>

fun max_suffix :: "jstr \<Rightarrow> int \<Rightarrow> cell_value list list \<Rightarrow> nat \<Rightarrow> nat" where
  "max_suffix prefix c [] m = m"
| "max_suffix prefix c (row # rows) m =
    max_suffix prefix c rows
      (case id_suffix prefix (cell_of_row row c) of None \<Rightarrow> m | Some n \<Rightarrow> max m n)"

text \<open>\<open>padStart(3, "0")\<close>.\<close>

definition pad3 :: "jstr \<Rightarrow> jstr" where
  "pad3 ds = replicate (3 - length ds) 48 @ ds"

text \<open>
  Modelled from the spec: \<open>nextIdForPrefix\<close> of \<open>lib/id_rules.ts\<close>, which is not among the
  source files. "Scans all rows (skipping the header row) for IDs beginning with
  \<open>prefix\<close> followed by digits, takes the maximum numeric suffix found (0 if none),
  increments by one, and formats as \<open>prefix\<close> + zero-padded 3-digit number (no truncation
  if the number exceeds 999). Invalid \<open>idColumnIndex\<close> (negative/out of range) is treated
  as no existing IDs (start at 1). Non-string/blank cells are ignored."
\<close>

definition nextIdForPrefix :: "jstr \<Rightarrow> cell_value list list \<Rightarrow> int \<Rightarrow> jstr" where
  "nextIdForPrefix prefix allRows idColumnIndex =
    prefix @ pad3 (decimal (max_suffix prefix idColumnIndex (tl allRows) 0 + 1))"

text \<open>The numeric suffixes of the data rows.\<close>

definition suffixes :: "jstr \<Rightarrow> cell_value list list \<Rightarrow> int \<Rightarrow> nat set" where
  "suffixes prefix allRows c =
    {n. \<exists>row \<in> set (tl allRows). id_suffix prefix (cell_of_row row c) = Some n}"

subsection \<open>Sample data of \<open>id_rules.test.ts\<close>\<close>

definition id_header :: "cell_value list" where
  "id_header = [Str (sankousho @ ascii ''ID''), Str taitoru]"

definition math_rows :: "cell_value list list" where
  "math_rows = [id_header, [Str (ascii ''gMB001''), Str (ascii ''m1'')],
     [Other, Str (ascii ''m'')], [Str (ascii ''gMB002''), Str (ascii ''m2'')],
     [Str (ascii ''gEC007''), Str (ascii ''e'')], [Str (ascii ''gMB005''), Str (ascii ''m3'')]]"

definition big_rows :: "cell_value list list" where
  "big_rows = [[Str (ascii ''gMB2000''), Str (ascii ''header'')],
     [Str (ascii ''gMB999''), Str (ascii ''m999'')]]"


section \<open>The preview/confirm protocol: \<open>handlers/books.ts\<close>\<close>

text \<open>
  The handlers \<open>booksUpdate\<close> and \<open>booksDelete\<close> and the cache they share with the students
  handlers are not among the source files; their tests (\<open>books.test.ts\<close>) are. An entity
  is a map from field names to values, kept under its id; a pending change is an update
  of fields or a delete.
\<close>

datatype change = Update "(jstr \<times> jstr) list" | Delete

record pending_change =
  pd_target :: jstr
  pd_payload :: change
  pd_expiry :: nat

text \<open>The cache is keyed by the entity namespace and the token.\<close>

type_synonym preview_cache = "jstr \<times> jstr \<rightharpoonup> pending_change"

type_synonym entity_store = "jstr \<rightharpoonup> (jstr \<rightharpoonup> jstr)"

text \<open>The time to live of a pending change: 5 minutes, in seconds.\<close>

definition CONFIRM_TTL :: nat where
  "CONFIRM_TTL = 300"

definition apply_change :: "jstr \<Rightarrow> change \<Rightarrow> entity_store \<Rightarrow> entity_store" where
  "apply_change target ch store =
    (case ch of
       Delete \<Rightarrow> store(target := None)
     | Update fs \<Rightarrow>
         (case store target of
            None \<Rightarrow> store
          | Some row \<Rightarrow> store(target \<mapsto> row ++ map_of fs)))"

text \<open>
  Modelled from the spec: Propose of the preview/confirm protocol, whose handlers are not
  among the source files. "Stores a PendingChange keyed by a freshly generated random
  token under \<open>entityNamespace\<close>, with expiry = now + 5 minutes. Returns the diff and token
  to the caller; does not mutate the sheet." The token is an argument, the clock is
  \<open>now\<close>, and the result is the token; a target that does not exist is \<open>NOT_FOUND\<close>, as
  in the tests.
\<close>

definition propose ::
  "preview_cache \<times> entity_store \<Rightarrow> jstr \<Rightarrow> jstr \<Rightarrow> change \<Rightarrow> jstr \<Rightarrow> nat
    \<Rightarrow> (error_code + jstr) \<times> (preview_cache \<times> entity_store)" where
  "propose st ns target payload token now =
    (case snd st target of
       None \<Rightarrow> (Inl NOT_FOUND, st)
     | Some row \<Rightarrow>
         (Inr token,
          ((fst st)((ns, token) \<mapsto>
             \<lparr>pd_target = target, pd_payload = payload, pd_expiry = now + CONFIRM_TTL\<rparr>),
           snd st)))"

text \<open>
  Modelled from the spec: Confirm of the preview/confirm protocol, whose handlers are not
  among the source files. "Looks up the PendingChange by token within
  \<open>entityNamespace\<close>. Fails with \<open>CONFIRM_EXPIRED\<close> if token unknown or past expiry (lazy
  expiry check at lookup time). Fails with \<open>CONFIRM_MISMATCH\<close> if the token was issued for
  a different \<open>targetId\<close> than the one supplied at confirm time. On success: re-reads the
  current sheet state, re-validates that the target still exists (fails \<open>NOT_FOUND\<close>
  otherwise), applies the stored payload, deletes the PendingChange (single-use), and
  returns success."
\<close>

definition confirm ::
  "preview_cache \<times> entity_store \<Rightarrow> jstr \<Rightarrow> jstr \<Rightarrow> jstr \<Rightarrow> nat
    \<Rightarrow> (error_code + unit) \<times> (preview_cache \<times> entity_store)" where
  "confirm st ns target token now =
    (case fst st (ns, token) of
       None \<Rightarrow> (Inl CONFIRM_EXPIRED, st)
     | Some p \<Rightarrow>
         if pd_expiry p < now then (Inl CONFIRM_EXPIRED, st)
         else if pd_target p \<noteq> target then (Inl CONFIRM_MISMATCH, st)
         else if snd st target = None then (Inl NOT_FOUND, st)
         else (Inr (),
               ((fst st)((ns, token) := None), apply_change target (pd_payload p) (snd st))))"

subsection \<open>Sample data of \<open>books.test.ts\<close>\<close>

definition sample_books :: entity_store where
  "sample_books =
    [ascii ''gM001'' \<mapsto> [ascii ''title'' \<mapsto> ascii ''Blue Chart IA''],
     ascii ''gE001'' \<mapsto> [ascii ''title'' \<mapsto> ascii ''Grammar 1000'']]"

definition sample_pending :: "preview_cache \<times> entity_store" where
  "sample_pending =
    snd (propose (Map.empty, sample_books) (ascii ''books_update'') (ascii ''gM001'')
      (Update [(ascii ''title'', ascii ''Blue Chart 1A revised'')]) (ascii ''token-1'') 1000)"


section \<open>Properties of the weekly planner\<close>

subsection \<open>The batch loop\<close>

text \<open>
  The sheet is not written before the loop over the items has ended, so the cache of
  plan cells always agrees with the sheet and an item's entry does not depend on the
  items before it.
\<close>

lemma getCurrentPlan_ok:
  "cache_ok sh c \<Longrightarrow>
    fst (getCurrentPlan sh c k) = sh k \<and> cache_ok sh (snd (getCurrentPlan sh c k))"
  by (cases k) (auto simp: cache_ok_def getCurrentPlan_def split: option.splits)

lemma cache_ok_empty: "cache_ok sh Map.empty"
  by (simp add: cache_ok_def)

lemma check_item_cache_ok:
  "cache_ok sh c \<Longrightarrow> cache_ok sh (snd (check_item sh ow brm c it))"
  by (simp add: check_item_def Let_def getCurrentPlan_ok)

lemma check_item_indep:
  "cache_ok sh c \<Longrightarrow> fst (check_item sh ow brm c it) = fst (check_item sh ow brm Map.empty it)"
  by (simp add: check_item_def Let_def getCurrentPlan_ok cache_ok_empty)

lemma process_item_fields:
  assumes "cache_ok sh (bs_cache st)"
  shows "bs_results (process_item sh ow brm st it) = bs_results st @ [fst (item_out sh ow brm it)]"
    and "bs_buckets (process_item sh ow brm st it) = queue_item (bs_buckets st) (item_out sh ow brm it)"
    and "cache_ok sh (bs_cache (process_item sh ow brm st it))"
  using assms check_item_indep [OF assms, of ow brm it] check_item_cache_ok [OF assms, of ow brm it]
  by (auto simp: process_item_def item_out_def queue_item_def Let_def split: option.splits)

lemma foldl_process_items:
  "cache_ok sh (bs_cache st) \<Longrightarrow>
   bs_results (foldl (process_item sh ow brm) st its)
     = bs_results st @ map (\<lambda>it. fst (item_out sh ow brm it)) its
   \<and> bs_buckets (foldl (process_item sh ow brm) st its)
     = foldl queue_item (bs_buckets st) (map (item_out sh ow brm) its)
   \<and> cache_ok sh (bs_cache (foldl (process_item sh ow brm) st its))"
proof (induction its arbitrary: st)
  case Nil
  then show ?case by simp
next
  case (Cons it its)
  from process_item_fields [OF Cons.prems, of ow brm it] Cons.IH [of "process_item sh ow brm st it"]
  show ?case by simp
qed

lemma batch_eval:
  assumes "rq_items req = Some its"
  shows "plannerPlanSet (Some sh) req =
    (Ok_batch (map (\<lambda>it. fst (item_out sh (rq_overwrite req) (book_rows sh) it)) its),
     Some (write_buckets
       (foldl queue_item [] (map (item_out sh (rq_overwrite req) (book_rows sh)) its)) sh))"
  using assms foldl_process_items [of sh init_state "rq_overwrite req" "book_rows sh" its]
  by (simp add: plannerPlanSet_def plan_set_batch_def Let_def book_rows_def [symmetric]
      init_state_def cache_ok_empty)

lemma queue_item_none: "snd r = None \<Longrightarrow> queue_item bs r = bs"
  by (simp add: queue_item_def)

lemma batch_skip:
  assumes "snd (item_out sh (rq_overwrite req) (book_rows sh) it) = None"
    and "rq_items req = Some (xs @ it # ys)"
  shows "snd (plannerPlanSet (Some sh) req)
    = snd (plannerPlanSet (Some sh) (req\<lparr>rq_items := Some (xs @ ys)\<rparr>))"
  using assms batch_eval [of req "xs @ it # ys" sh]
    batch_eval [of "req\<lparr>rq_items := Some (xs @ ys)\<rparr>" "xs @ ys" sh]
  by (simp add: queue_item_none)

lemma batch_entry:
  assumes "rq_items req = Some (xs @ it # ys)"
  shows "\<exists>rs. fst (plannerPlanSet (Some sh) req) = Ok_batch rs
     \<and> length rs = length (xs @ it # ys)
     \<and> rs ! length xs = fst (item_out sh (rq_overwrite req) (book_rows sh) it)"
  using batch_eval [OF assms, of sh] by (simp add: nth_append)

subsection \<open>The entry of one item\<close>


lemma item_out_too_long:
  "it_week_index it \<in> Some ` {1..5} \<Longrightarrow> PLAN_TEXT_MAX < length (str_or_empty (it_plan_text it))
    \<Longrightarrow> item_out sh ow brm it = (Item_err TOO_LONG None, None)"
  by (auto simp: item_out_def check_item_def Let_def num_or_zero_def)

lemma item_out_too_long_no_write:
  "PLAN_TEXT_MAX < length (str_or_empty (it_plan_text it)) \<Longrightarrow> snd (item_out sh ow brm it) = None"
  by (auto simp: item_out_def check_item_def Let_def num_or_zero_def)

lemma item_out_not_too_long:
  "length (str_or_empty (it_plan_text it)) \<le> PLAN_TEXT_MAX
    \<Longrightarrow> fst (item_out sh ow brm it) \<noteq> Item_err TOO_LONG None"
  by (auto simp: item_out_def check_item_def Let_def num_or_zero_def)

lemma week_col_nth: "wk \<in> {1..5} \<Longrightarrow> num_or_zero (Some wk) \<noteq> 0 \<and> \<not> wk < 1 \<and> \<not> 5 < wk"
  by (auto simp: num_or_zero_def)

lemma single_eval:
  assumes "rq_items req = None" and "rq_week_index req = Some wk" and "wk \<in> {1..5}"
    and "length (str_or_empty (rq_plan_text req)) \<le> 52"
    and "resolve_row_single sh req = Some r"
    and "week = WEEK_COLUMNS ! nat (wk - 1)"
  shows "plannerPlanSet (Some sh) req =
    (if trim (sh (''A'', r)) = [] then (Ng PRECONDITION_A_EMPTY, Some sh)
     else if trim (sh (wc_time week, r)) = [] then (Ng PRECONDITION_TIME_EMPTY, Some sh)
     else if trim (sh (wc_plan week, r)) \<noteq> [] \<and> \<not> truthy_bool (rq_overwrite req)
       then (Ng ALREADY_EXISTS, Some sh)
     else (Ok_single (wc_plan week, r),
           Some (sh((wc_plan week, r) := str_or_empty (rq_plan_text req)))))"
  using assms
  by (auto simp: plannerPlanSet_def plan_set_single_def Let_def num_or_zero_def PLAN_TEXT_MAX_def)

lemma item_out_eval:
  assumes "it_week_index it = Some wk" and "wk \<in> {1..5}"
    and "length (str_or_empty (it_plan_text it)) \<le> 52"
    and "resolve_row_batch brm it = r" and "r \<noteq> 0"
    and "week = WEEK_COLUMNS ! nat (wk - 1)"
  shows "item_out sh ow brm it =
    (if trim (sh (''A'', r)) = [] then (Item_err PRECONDITION_A_EMPTY None, None)
     else if trim (sh (wc_time week, r)) = [] then (Item_err PRECONDITION_TIME_EMPTY None, None)
     else if trim (sh (wc_plan week, r)) \<noteq> [] \<and> \<not> item_overwrite ow it
       then (Item_err ALREADY_EXISTS (Some (wc_plan week, r)), None)
     else (Item_ok (wc_plan week, r),
           Some \<lparr>pr_week_index = wk, pr_row = r, pr_text = str_or_empty (it_plan_text it),
                 pr_cell = (wc_plan week, r)\<rparr>))"
  using assms
  by (auto simp: item_out_def check_item_def Let_def num_or_zero_def PLAN_TEXT_MAX_def
      getCurrentPlan_def)

lemma write_one:
  "write_buckets (queue_item [] (Item_ok (col, r), Some \<lparr>pr_week_index = wk, pr_row = r, pr_text = txt, pr_cell = (col, r)\<rparr>)) sh
    = sh((col, r) := txt)"
  by (auto simp: write_buckets_def queue_item_def bucket_push_def writeBlock_def set_values_def Let_def)

lemma single_length_check:
  assumes "rq_items req = None"
  shows "(if 52 < length (str_or_empty (rq_plan_text req))
          then plannerPlanSet (Some sh) req
            = (Ng (if rq_week_index req \<in> Some ` {1..5} then TOO_LONG else BAD_REQUEST), Some sh)
          else fst (plannerPlanSet (Some sh) req) \<noteq> Ng TOO_LONG)"
  using assms
  by (cases "rq_week_index req")
    (auto simp: plannerPlanSet_def plan_set_single_def Let_def num_or_zero_def PLAN_TEXT_MAX_def
      split: option.splits)

lemma item_length_check:
  "(if 52 < length (str_or_empty (it_plan_text it))
    then item_out sh ow brm it
      = (Item_err (if it_week_index it \<in> Some ` {1..5} then TOO_LONG else BAD_WEEK) None, None)
    else fst (item_out sh ow brm it) \<noteq> Item_err TOO_LONG None)"
  by (cases "it_week_index it")
    (auto simp: item_out_def check_item_def Let_def num_or_zero_def PLAN_TEXT_MAX_def)

subsection \<open>The write phase\<close>

text \<open>
  \<open>setValues\<close> on a block of consecutive rows writes the same cells as one \<open>setValue\<close> for
  each row, so that \<open>writeBlock\<close>, which sorts the rows (a stable sort) and writes the blocks
  of consecutive rows, leaves every cell with the value of the last pair for its row.
\<close>

lemma seq_write_Nil [simp]: "seq_write col sh [] = sh"
  by (simp add: seq_write_def)

lemma seq_write_Cons [simp]: "seq_write col sh (p # ps) = seq_write col (sh((col, fst p) := snd p)) ps"
  by (simp add: seq_write_def)

lemma seq_write_append: "seq_write col sh (ps @ qs) = seq_write col (seq_write col sh ps) qs"
  by (simp add: seq_write_def)

lemma set_values_Nil: "set_values col r [] sh = sh"
  by (auto simp: set_values_def fun_eq_iff)

lemma set_values_Cons:
  "set_values col r (v # vs) sh = set_values col (r + 1) vs (sh((col, r) := v))"
proof (rule ext)
  fix k :: cell
  obtain c x where k: "k = (c, x)" by (cases k)
  have "nat (x - r) = Suc (nat (x - (r + 1)))" if "r + 1 \<le> x"
    using that by arith
  then show "set_values col r (v # vs) sh k = set_values col (r + 1) vs (sh((col, r) := v)) k"
    unfolding k by (auto simp: set_values_def)
qed

lemma set_values_consecutive:
  "consecutive r ps \<Longrightarrow> set_values col r (map snd ps) sh = seq_write col sh ps"
proof (induction ps arbitrary: r sh)
  case Nil
  then show ?case by (simp add: set_values_Nil)
next
  case (Cons p ps)
  from Cons.prems have p: "fst p = r" and c: "consecutive (r + 1) ps" by simp_all
  have "set_values col r (map snd (p # ps)) sh
      = set_values col (r + 1) (map snd ps) (sh((col, r) := snd p))"
    by (simp only: list.map set_values_Cons)
  also have "\<dots> = seq_write col (sh((col, r) := snd p)) ps"
    by (rule Cons.IH [OF c])
  also have "\<dots> = seq_write col sh (p # ps)"
    by (simp only: seq_write_Cons p)
  finally show ?case .
qed

lemma block_consecutive: "ps \<noteq> [] \<Longrightarrow> consecutive (fst (hd ps)) (take (block_len ps) ps)"
  by (induction ps rule: block_len.induct) auto

lemma write_blocks_seq: "write_blocks col ps sh = seq_write col sh ps"
proof (induction col ps sh rule: write_blocks.induct)
  case (1 col sh)
  then show ?case by simp
next
  case (2 col p ps sh)
  let ?n = "block_len (p # ps)"
  have c: "consecutive (fst p) (take ?n (p # ps))"
    using block_consecutive [of "p # ps"] by simp
  have "write_blocks col (p # ps) sh
      = write_blocks col (drop ?n (p # ps)) (set_values col (fst p) (map snd (take ?n (p # ps))) sh)"
    by (simp add: Let_def)
  also have "\<dots> = seq_write col (seq_write col sh (take ?n (p # ps))) (drop ?n (p # ps))"
    using "2.IH" [OF refl refl] set_values_consecutive [OF c] by (simp add: Let_def)
  also have "\<dots> = seq_write col sh (take ?n (p # ps) @ drop ?n (p # ps))"
    by (simp only: seq_write_append)
  finally show ?case by (simp only: append_take_drop_id)
qed

lemma seq_write_lookup:
  "seq_write col sh ps (c, x) =
    (if c = col \<and> filter (\<lambda>p. fst p = x) ps \<noteq> [] then snd (last (filter (\<lambda>p. fst p = x) ps))
     else sh (c, x))"
proof (induction ps rule: rev_induct)
  case Nil
  then show ?case by simp
next
  case (snoc p ps)
  then show ?case by (auto simp: seq_write_append)
qed

lemma writeBlock_seq: "writeBlock col rows vals sh = seq_write col sh (zip rows vals)"
proof (rule ext)
  fix k :: cell
  obtain c x where k: "k = (c, x)" by (cases k)
  show "writeBlock col rows vals sh k = seq_write col sh (zip rows vals) k"
    unfolding k writeBlock_def write_blocks_seq seq_write_lookup [of col sh _ c x]
    by (simp only: sort_key_stable)
qed

text \<open>
  The buckets hold, for each column, the accepted writes to that column in the order of the
  items; after the write phase a cell holds the text of the last accepted item for it.
\<close>

lemma write_buckets_snoc:
  "write_buckets (bs @ [(k, b)]) sh
    = seq_write (bk_col b) (write_buckets bs sh) (zip (bk_rows b) (bk_values b))"
  by (cases "bk_rows b") (simp_all add: write_buckets_def writeBlock_seq)

lemma write_buckets_lookup:
  "buckets_wf bs \<Longrightarrow> write_buckets bs sh (c, x) = seq_write c sh (bucket_entries bs c) (c, x)"
proof (induction bs rule: rev_induct)
  case Nil
  then show ?case by (simp add: write_buckets_def bucket_entries_def)
next
  case (snoc kb bs)
  obtain k b where kb: "kb = (k, b)" by (cases kb)
  from snoc.prems kb have wf: "buckets_wf bs" and k: "k \<notin> fst ` set bs" and col: "bk_col b = k"
    by (auto simp: buckets_wf_def)
  from k have none: "map_of bs k = None" by (simp add: map_of_eq_None_iff)
  show ?case
  proof (cases "c = k")
    case True
    with none have "bucket_entries (bs @ [kb]) c = zip (bk_rows b) (bk_values b)"
      by (simp add: bucket_entries_def kb map_add_def)
    moreover from none True have "bucket_entries bs c = []"
      by (simp add: bucket_entries_def)
    ultimately show ?thesis
      using snoc.IH [OF wf] True col
      by (simp add: kb write_buckets_snoc seq_write_lookup [of k _ _ k x])
  next
    case False
    then have "bucket_entries (bs @ [kb]) c = bucket_entries bs c"
      by (simp add: bucket_entries_def kb map_add_def split: option.splits)
    with False col snoc.IH [OF wf] show ?thesis
      by (simp add: kb write_buckets_snoc seq_write_lookup [of k _ _ c x])
  qed
qed

lemma map_of_map_upd:
  "map_of (map (\<lambda>(k, b). if k = key then (k, f b) else (k, b)) bs) c
    = (if c = key then map_option f (map_of bs c) else map_of bs c)"
  by (induction bs) auto

lemma bucket_push_props:
  assumes "buckets_wf bs"
  shows "buckets_wf (bucket_push key row txt bs)"
    and "bucket_entries (bucket_push key row txt bs) c
      = bucket_entries bs c @ (if c = key then [(row, txt)] else [])"
proof -
  let ?new = "(key, \<lparr>bk_col = key, bk_rows = [], bk_values = []\<rparr>)"
  let ?bs1 = "if map_of bs key = None then bs @ [?new] else bs"
  let ?f = "\<lambda>b. b\<lparr>bk_rows := bk_rows b @ [row], bk_values := bk_values b @ [txt]\<rparr>"
  have push: "bucket_push key row txt bs = map (\<lambda>(k, b). if k = key then (k, ?f b) else (k, b)) ?bs1"
    by (simp add: bucket_push_def Let_def)
  have wf1: "buckets_wf ?bs1"
    using assms by (auto simp: buckets_wf_def map_of_eq_None_iff)
  have keys: "map fst (map (\<lambda>(k, b). if k = key then (k, ?f b) else (k, b)) ?bs1) = map fst ?bs1"
    by (auto simp: case_prod_beta)
  have "bk_col (snd kb) = fst kb \<and> length (bk_rows (snd kb)) = length (bk_values (snd kb))"
    if "kb \<in> set (map (\<lambda>(k, b). if k = key then (k, ?f b) else (k, b)) ?bs1)" for kb
  proof -
    from that obtain k b where kb: "(k, b) \<in> set ?bs1"
      "kb = (if k = key then (k, ?f b) else (k, b))"
      by auto
    from wf1 kb(1) have "bk_col b = k \<and> length (bk_rows b) = length (bk_values b)"
      unfolding buckets_wf_def list_all_iff by fastforce
    with kb(2) show ?thesis by simp
  qed
  with wf1 show "buckets_wf (bucket_push key row txt bs)"
    unfolding push buckets_wf_def keys list_all_iff by blast
  have ent1: "bucket_entries ?bs1 c = bucket_entries bs c"
    by (auto simp: bucket_entries_def map_add_def split: option.splits)
  have lens: "length (bk_rows b) = length (bk_values b)" if "map_of ?bs1 c = Some b" for b
    using wf1 map_of_SomeD [OF that] by (auto simp: buckets_wf_def list_all_iff)
  have some: "map_of ?bs1 key \<noteq> None"
    by (auto simp: map_add_def)
  show "bucket_entries (bucket_push key row txt bs) c
      = bucket_entries bs c @ (if c = key then [(row, txt)] else [])"
  proof (cases "c = key")
    case True
    from some obtain b where b: "map_of ?bs1 key = Some b" by blast
    from lens [of b] b True have "length (bk_rows b) = length (bk_values b)" by simp
    with b True ent1 show ?thesis
      unfolding push bucket_entries_def map_of_map_upd by auto
  next
    case False
    with ent1 show ?thesis
      unfolding push bucket_entries_def map_of_map_upd by simp
  qed
qed

lemma queue_items_props:
  "buckets_wf bs \<Longrightarrow>
    buckets_wf (foldl queue_item bs outs)
    \<and> bucket_entries (foldl queue_item bs outs) c = bucket_entries bs c @ entries_of (accepted outs) c"
proof (induction outs arbitrary: bs)
  case Nil
  then show ?case by (simp add: accepted_def entries_of_def)
next
  case (Cons out outs)
  show ?case
  proof (cases "snd out")
    case None
    then have "queue_item bs out = bs" "accepted (out # outs) = accepted outs"
      by (simp_all add: queue_item_def accepted_def)
    with Cons show ?thesis by simp
  next
    case (Some p)
    then have q: "queue_item bs out = bucket_push (fst (pr_cell p)) (pr_row p) (pr_text p) bs"
      and a: "accepted (out # outs) = p # accepted outs"
      by (simp_all add: queue_item_def accepted_def)
    from bucket_push_props(1) [OF Cons.prems, of "fst (pr_cell p)" "pr_row p" "pr_text p"]
      bucket_push_props(2) [OF Cons.prems, of "fst (pr_cell p)" "pr_row p" "pr_text p" c]
      Cons.IH [of "queue_item bs out"] q a
    show ?thesis by (auto simp: entries_of_def)
  qed
qed

lemma buckets_wf_Nil: "buckets_wf []"
  by (simp add: buckets_wf_def)

lemma batch_sheet_lookup:
  "write_buckets (foldl queue_item [] outs) sh (c, x)
    = (case filter (\<lambda>p. fst (pr_cell p) = c \<and> pr_row p = x) (accepted outs) of
         [] \<Rightarrow> sh (c, x) | p # ps \<Rightarrow> pr_text (last (p # ps)))"
proof -
  let ?B = "foldl queue_item [] outs"
  let ?ps = "filter (\<lambda>p. fst (pr_cell p) = c \<and> pr_row p = x) (accepted outs)"
  from queue_items_props [OF buckets_wf_Nil, of outs c]
  have wf: "buckets_wf ?B" and ent: "bucket_entries ?B c = entries_of (accepted outs) c"
    by (simp_all add: bucket_entries_def)
  have f: "filter (\<lambda>q. fst q = x) (entries_of (accepted outs) c) = map (\<lambda>p. (pr_row p, pr_text p)) ?ps"
    by (simp add: entries_of_def filter_map comp_def conj_commute)
  show ?thesis
    unfolding write_buckets_lookup [OF wf] ent seq_write_lookup f
    by (cases ?ps) (simp_all add: last_map)
qed

subsection \<open>The sheet after a batch call\<close>

text \<open>
  An accepted item is one whose entry is \<open>ok\<close> with its cell. After the call every cell holds
  the text of the last item accepted for it, and is unchanged when there is none.
\<close>

lemma item_out_accepted:
  assumes "item_out sh ow brm it = (r, Some p)"
  shows "r = Item_ok (pr_cell p) \<and> snd (pr_cell p) = pr_row p
    \<and> pr_text p = str_or_empty (it_plan_text it)"
  using assms
  by (auto simp: item_out_def check_item_def Let_def split: if_splits)

lemma item_out_rejected:
  assumes "item_out sh ow brm it = (r, None)"
  shows "\<not> item_ok r"
  using assms
  by (auto simp: item_out_def check_item_def Let_def split: if_splits)

lemma accepted_texts:
  "map pr_text (filter (\<lambda>p. fst (pr_cell p) = c \<and> pr_row p = x)
      (accepted (map (item_out sh ow brm) its)))
    = map (\<lambda>it. str_or_empty (it_plan_text it))
        (filter (\<lambda>it. fst (item_out sh ow brm it) = Item_ok (c, x)) its)"
proof (induction its)
  case Nil
  then show ?case by (simp add: accepted_def)
next
  case (Cons it its)
  obtain r po where o: "item_out sh ow brm it = (r, po)" by (cases "item_out sh ow brm it")
  show ?case
  proof (cases po)
    case None
    with o item_out_rejected [of sh ow brm it r] have "r \<noteq> Item_ok (c, x)" by auto
    with o None Cons.IH show ?thesis by (simp add: accepted_def)
  next
    case (Some p)
    with o item_out_accepted [of sh ow brm it r p]
    have "r = Item_ok (pr_cell p)" "snd (pr_cell p) = pr_row p"
      "pr_text p = str_or_empty (it_plan_text it)"
      by simp_all
    moreover from this have "(fst (pr_cell p) = c \<and> pr_row p = x) = (pr_cell p = (c, x))"
      by (cases "pr_cell p") auto
    ultimately show ?thesis
      using o Some Cons.IH by (simp add: accepted_def)
  qed
qed

lemma batch_cell:
  assumes "rq_items req = Some its"
  shows "\<exists>sh'. snd (plannerPlanSet (Some sh) req) = Some sh'
    \<and> (\<forall>k. sh' k =
         (if filter (\<lambda>it. fst (item_out sh (rq_overwrite req) (book_rows sh) it) = Item_ok k) its = []
          then sh k
          else str_or_empty (it_plan_text (last
            (filter (\<lambda>it. fst (item_out sh (rq_overwrite req) (book_rows sh) it) = Item_ok k) its)))))"
proof -
  let ?io = "item_out sh (rq_overwrite req) (book_rows sh)"
  let ?sh' = "write_buckets (foldl queue_item [] (map ?io its)) sh"
  have "?sh' k = (if filter (\<lambda>it. fst (?io it) = Item_ok k) its = [] then sh k
      else str_or_empty (it_plan_text (last (filter (\<lambda>it. fst (?io it) = Item_ok k) its))))" for k
  proof -
    obtain c x where k: "k = (c, x)" by (cases k)
    let ?ps = "filter (\<lambda>p. fst (pr_cell p) = c \<and> pr_row p = x) (accepted (map ?io its))"
    let ?is = "filter (\<lambda>it. fst (?io it) = Item_ok (c, x)) its"
    have m: "map pr_text ?ps = map (\<lambda>it. str_or_empty (it_plan_text it)) ?is"
      by (rule accepted_texts)
    show ?thesis
    proof (cases ?ps)
      case Nil
      with m have "?is = []" by simp
      with Nil show ?thesis by (simp add: k batch_sheet_lookup)
    next
      case (Cons p ps)
      with m have ne: "?is \<noteq> []" by auto
      have "pr_text (last ?ps) = last (map pr_text ?ps)"
        using Cons by (simp add: last_map)
      also have "\<dots> = str_or_empty (it_plan_text (last ?is))"
        using ne by (simp add: m last_map)
      finally show ?thesis
        using Cons ne by (simp add: k batch_sheet_lookup)
    qed
  qed
  with batch_eval [OF assms, of sh] show ?thesis by simp
qed

lemma batch_results:
  "rq_items req = Some its \<Longrightarrow>
    results_of (fst (plannerPlanSet (Some sh) req))
      = map (\<lambda>it. fst (item_out sh (rq_overwrite req) (book_rows sh) it)) its"
  by (simp add: batch_eval)

lemma batch_accept:
  assumes items: "rq_items req = Some (xs @ it # ys)"
    and ok: "fst (item_out sh (rq_overwrite req) (book_rows sh) it) = Item_ok k"
    and later: "Item_ok k \<notin> set (results_of (fst (plannerPlanSet (Some sh) (req\<lparr>rq_items := Some ys\<rparr>))))"
  shows "snd (plannerPlanSet (Some sh) req)
    = map_option (\<lambda>s. s(k := str_or_empty (it_plan_text it)))
        (snd (plannerPlanSet (Some sh) (req\<lparr>rq_items := Some (xs @ ys)\<rparr>)))"
proof -
  let ?io = "item_out sh (rq_overwrite req) (book_rows sh)"
  let ?f = "\<lambda>c l. filter (\<lambda>i. fst (?io i) = Item_ok c) l"
  from later have ys: "?f k ys = []"
    by (force simp: batch_results filter_empty_conv image_iff)
  from batch_cell [OF items, of sh] obtain s where
    s: "snd (plannerPlanSet (Some sh) req) = Some s"
      "\<And>c. s c = (if ?f c (xs @ it # ys) = [] then sh c
          else str_or_empty (it_plan_text (last (?f c (xs @ it # ys)))))"
    by blast
  from batch_cell [of "req\<lparr>rq_items := Some (xs @ ys)\<rparr>" "xs @ ys" sh] obtain s' where
    s': "snd (plannerPlanSet (Some sh) (req\<lparr>rq_items := Some (xs @ ys)\<rparr>)) = Some s'"
      "\<And>c. s' c = (if ?f c (xs @ ys) = [] then sh c
          else str_or_empty (it_plan_text (last (?f c (xs @ ys)))))"
    by auto
  have "s c = (s'(k := str_or_empty (it_plan_text it))) c" for c
  proof (cases "c = k")
    case True
    have "?f k (xs @ it # ys) = ?f k xs @ [it]"
      using ok ys by simp
    with True show ?thesis by (simp add: s(2))
  next
    case False
    with ok have "?f c (xs @ it # ys) = ?f c (xs @ ys)"
      by simp
    with False show ?thesis by (simp add: s(2) s'(2))
  qed
  then have "s = s'(k := str_or_empty (it_plan_text it))" by (rule ext)
  with s(1) s'(1) show ?thesis by simp
qed



subsection \<open>Evaluation of the sample data\<close>

lemmas request_defs = no_req_def no_item_def long_req_def long_item_def long_text_def max_text_def
  str_or_empty_def num_or_zero_def truthy_bool_def truthy_str_def

lemmas sheet_defs = sample_sheet_def sample_rows_def ascii_def trim_def is_ws_def WEEK_COLUMNS_def

lemma sample_book_row:
  "build_book_row_map (readABCD sample_sheet) 4 Map.empty (ascii ''gE001'') = Some 5"
  by (simp add: readABCD_def upto.simps sheet_defs parseBookCode_def match_book_code_def
      match_code_at_def is_digit_def is_line_terminator_def Let_def)

lemma mixed_batch_results:
  "fst (plannerPlanSet (Some sample_sheet) (no_req\<lparr>rq_items := Some [long_item 1, week3_item, week6_item]\<rparr>))
     = Ok_batch [Item_err TOO_LONG None, Item_ok (''X'', 4), Item_err BAD_WEEK None]"
  by (simp add: batch_eval item_out_def check_item_def Let_def request_defs week3_item_def
      week6_item_def sheet_defs PLAN_TEXT_MAX_def resolve_row_batch_def getCurrentPlan_def
      item_overwrite_def)

subsection \<open>The claims about \<open>plannerPlanSet\<close>\<close>

text \<open>
  All of them are about a call whose planner sheet could be opened, that is
  \<open>plannerPlanSet (Some sh) req\<close>; when \<open>openPlannerSheet\<close> returns null the handler
  answers \<open>NOT_FOUND\<close> before it looks at the request. In the batch mode the item under
  consideration is \<open>it\<close> in a list \<open>xs @ it # ys\<close> of items, so that its entry is the one
  at index \<open>length xs\<close>, and "the item writes no cell" is stated as: the sheet after the
  call is the sheet after the same call without the item.
\<close>

text \<open>
  Claim C2, as the code has it. The week index is checked before the length of the text.
  A request (or batch item) whose \<open>plan_text\<close> is longer than 52 code units writes no cell
  and fails: with \<open>TOO_LONG\<close> when its week index is in 1..5, and with \<open>BAD_REQUEST\<close> (as
  an item, \<open>BAD_WEEK\<close>) otherwise. A text of at most 52 code units never fails with
  \<open>TOO_LONG\<close>.
\<close>

theorem plan_text_length_check:
  assumes "rq_items req = None" and "rq_items breq = Some (xs @ it # ys)"
  shows "(if 52 < length (str_or_empty (rq_plan_text req))
          then plannerPlanSet (Some sh) req
            = (Ng (if rq_week_index req \<in> Some ` {1..5} then TOO_LONG else BAD_REQUEST), Some sh)
          else fst (plannerPlanSet (Some sh) req) \<noteq> Ng TOO_LONG)
       \<and> (\<exists>rs. fst (plannerPlanSet (Some sh) breq) = Ok_batch rs
              \<and> length rs = length (xs @ it # ys)
              \<and> (if 52 < length (str_or_empty (it_plan_text it))
                  then rs ! length xs
                      = Item_err (if it_week_index it \<in> Some ` {1..5} then TOO_LONG else BAD_WEEK) None
                    \<and> snd (plannerPlanSet (Some sh) breq)
                      = snd (plannerPlanSet (Some sh) (breq\<lparr>rq_items := Some (xs @ ys)\<rparr>))
                  else rs ! length xs \<noteq> Item_err TOO_LONG None))"
proof -
  let ?o = "item_out sh (rq_overwrite breq) (book_rows sh) it"
  from batch_entry [OF assms(2), of sh] obtain rs where
    rs: "fst (plannerPlanSet (Some sh) breq) = Ok_batch rs" "length rs = length (xs @ it # ys)"
      "rs ! length xs = fst ?o"
    by blast
  have "if 52 < length (str_or_empty (it_plan_text it))
        then rs ! length xs
            = Item_err (if it_week_index it \<in> Some ` {1..5} then TOO_LONG else BAD_WEEK) None
          \<and> snd (plannerPlanSet (Some sh) breq)
            = snd (plannerPlanSet (Some sh) (breq\<lparr>rq_items := Some (xs @ ys)\<rparr>))
        else rs ! length xs \<noteq> Item_err TOO_LONG None"
  proof (cases "52 < length (str_or_empty (it_plan_text it))")
    case True
    with item_length_check [of it sh "rq_overwrite breq" "book_rows sh"]
    have o: "?o = (Item_err (if it_week_index it \<in> Some ` {1..5} then TOO_LONG else BAD_WEEK) None, None)"
      by simp
    then have "snd ?o = None" by simp
    from batch_skip [OF this assms(2)] o rs(3) True show ?thesis by simp
  next
    case False
    with item_length_check [of it sh "rq_overwrite breq" "book_rows sh"] rs(3) show ?thesis by simp
  qed
  with rs(1,2) single_length_check [OF assms(1), of sh] show ?thesis by blast
qed

theorem plan_text_length_check_witness:
  "plannerPlanSet (Some sample_sheet) (long_req 1) = (Ng TOO_LONG, Some sample_sheet)
   \<and> (\<exists>rs. fst (plannerPlanSet (Some sample_sheet) (no_req\<lparr>rq_items := Some [week3_item, long_item 1]\<rparr>))
            = Ok_batch rs
          \<and> length rs = length [week3_item, long_item 1]
          \<and> rs ! length [week3_item] = Item_err TOO_LONG None
          \<and> snd (plannerPlanSet (Some sample_sheet) (no_req\<lparr>rq_items := Some [week3_item, long_item 1]\<rparr>))
            = snd (plannerPlanSet (Some sample_sheet) (no_req\<lparr>rq_items := Some [week3_item]\<rparr>)))"
proof -
  have h1: "rq_items (long_req 1) = None"
    by (simp add: request_defs)
  have h2: "rq_items (no_req\<lparr>rq_items := Some [week3_item, long_item 1]\<rparr>)
      = Some ([week3_item] @ long_item 1 # [])"
    by simp
  have h3: "Some (1::int) \<in> Some ` {1..5}" by simp
  from plan_text_length_check [OF h1 h2, of sample_sheet] h3 show ?thesis
    by (simp add: request_defs)
qed

text \<open>
  Claim C2 as stated fails: the request of the test "should return error when plan_text
  is too long" with the week index 6 in place of 1 has a text of 53 characters and fails
  with \<open>BAD_REQUEST\<close>, not with \<open>TOO_LONG\<close>; as a batch item it fails with \<open>BAD_WEEK\<close>.
\<close>

theorem too_long_with_bad_week_counterexample:
  "52 < length (str_or_empty (rq_plan_text (long_req 6)))
   \<and> plannerPlanSet (Some sample_sheet) (long_req 6) = (Ng BAD_REQUEST, Some sample_sheet)
   \<and> fst (plannerPlanSet (Some sample_sheet) (long_req 6)) \<noteq> Ng TOO_LONG
   \<and> 52 < length (str_or_empty (it_plan_text (long_item 6)))
   \<and> fst (plannerPlanSet (Some sample_sheet) (no_req\<lparr>rq_items := Some [long_item 6]\<rparr>))
       = Ok_batch [Item_err BAD_WEEK None]"
  by (simp add: plannerPlanSet_def plan_set_single_def plan_set_batch_def process_item_def
      check_item_def init_state_def request_defs Let_def)



text \<open>
  Claim C4. A write to a resolved row \<open>r\<close> (the week index is in 1..5 and the text has at
  most 52 code units, so that the row is looked at): a blank A cell gives
  \<open>PRECONDITION_A_EMPTY\<close>; otherwise a blank time cell of the week gives
  \<open>PRECONDITION_TIME_EMPTY\<close>; otherwise a non-blank plan cell without overwrite gives
  \<open>ALREADY_EXISTS\<close>; in these three cases nothing is written. Otherwise, in particular
  with overwrite set, the call succeeds and the plan cell holds the new text, every other
  cell being unchanged. For a batch item the entry of the item is the same; a rejected
  item leaves the sheet as the batch without it does, and an accepted item, when no later
  item of the batch is accepted for the same cell, puts its text into the plan cell of the
  sheet that the batch without it leaves.
\<close>

theorem plan_write_preconditions:
  assumes "wk \<in> {1..5}" and "week = WEEK_COLUMNS ! nat (wk - 1)"
    and "rq_items req = None" and "rq_week_index req = Some wk"
    and "length (str_or_empty (rq_plan_text req)) \<le> 52"
    and "resolve_row_single sh req = Some r"
    and "rq_items breq = Some (xs @ it # ys)" and "it_week_index it = Some wk"
    and "length (str_or_empty (it_plan_text it)) \<le> 52"
    and "resolve_row_batch (build_book_row_map (readABCD sh) 4 Map.empty) it = r'" and "r' \<noteq> 0"
  shows "plannerPlanSet (Some sh) req =
          (if trim (sh (''A'', r)) = [] then (Ng PRECONDITION_A_EMPTY, Some sh)
           else if trim (sh (wc_time week, r)) = [] then (Ng PRECONDITION_TIME_EMPTY, Some sh)
           else if trim (sh (wc_plan week, r)) \<noteq> [] \<and> \<not> truthy_bool (rq_overwrite req)
             then (Ng ALREADY_EXISTS, Some sh)
           else (Ok_single (wc_plan week, r),
                 Some (sh((wc_plan week, r) := str_or_empty (rq_plan_text req)))))
       \<and> (\<exists>rs. fst (plannerPlanSet (Some sh) breq) = Ok_batch rs
              \<and> length rs = length (xs @ it # ys)
              \<and> rs ! length xs =
                  (if trim (sh (''A'', r')) = [] then Item_err PRECONDITION_A_EMPTY None
                   else if trim (sh (wc_time week, r')) = []
                     then Item_err PRECONDITION_TIME_EMPTY None
                   else if trim (sh (wc_plan week, r')) \<noteq> []
                       \<and> \<not> item_overwrite (rq_overwrite breq) it
                     then Item_err ALREADY_EXISTS (Some (wc_plan week, r'))
                   else Item_ok (wc_plan week, r')))
       \<and> (trim (sh (''A'', r')) = [] \<or> trim (sh (wc_time week, r')) = []
            \<or> (trim (sh (wc_plan week, r')) \<noteq> [] \<and> \<not> item_overwrite (rq_overwrite breq) it) \<longrightarrow>
            snd (plannerPlanSet (Some sh) breq)
              = snd (plannerPlanSet (Some sh) (breq\<lparr>rq_items := Some (xs @ ys)\<rparr>)))
       \<and> (trim (sh (''A'', r')) \<noteq> [] \<and> trim (sh (wc_time week, r')) \<noteq> []
            \<and> (trim (sh (wc_plan week, r')) = [] \<or> item_overwrite (rq_overwrite breq) it)
            \<and> Item_ok (wc_plan week, r')
                \<notin> set (results_of (fst (plannerPlanSet (Some sh) (breq\<lparr>rq_items := Some ys\<rparr>)))) \<longrightarrow>
            snd (plannerPlanSet (Some sh) breq)
              = map_option (\<lambda>s. s((wc_plan week, r') := str_or_empty (it_plan_text it)))
                  (snd (plannerPlanSet (Some sh) (breq\<lparr>rq_items := Some (xs @ ys)\<rparr>))))"
proof -
  let ?o = "item_out sh (rq_overwrite breq) (book_rows sh) it"
  from batch_entry [OF assms(7), of sh] obtain rs where
    rs: "fst (plannerPlanSet (Some sh) breq) = Ok_batch rs" "length rs = length (xs @ it # ys)"
      "rs ! length xs = fst ?o"
    by blast
  have r': "resolve_row_batch (book_rows sh) it = r'"
    using assms(10) by (simp add: book_rows_def)
  note o = item_out_eval [OF assms(8) assms(1) assms(9) r' assms(11) assms(2),
      of sh "rq_overwrite breq"]
  have entry: "rs ! length xs =
      (if trim (sh (''A'', r')) = [] then Item_err PRECONDITION_A_EMPTY None
       else if trim (sh (wc_time week, r')) = [] then Item_err PRECONDITION_TIME_EMPTY None
       else if trim (sh (wc_plan week, r')) \<noteq> [] \<and> \<not> item_overwrite (rq_overwrite breq) it
         then Item_err ALREADY_EXISTS (Some (wc_plan week, r'))
       else Item_ok (wc_plan week, r'))"
    using rs(3) o by simp
  have rejected: "snd (plannerPlanSet (Some sh) breq)
      = snd (plannerPlanSet (Some sh) (breq\<lparr>rq_items := Some (xs @ ys)\<rparr>))"
    if "trim (sh (''A'', r')) = [] \<or> trim (sh (wc_time week, r')) = []
      \<or> (trim (sh (wc_plan week, r')) \<noteq> [] \<and> \<not> item_overwrite (rq_overwrite breq) it)"
  proof -
    from that o have "snd ?o = None" by auto
    from batch_skip [OF this assms(7)] show ?thesis .
  qed
  have accepted: "snd (plannerPlanSet (Some sh) breq)
      = map_option (\<lambda>s. s((wc_plan week, r') := str_or_empty (it_plan_text it)))
          (snd (plannerPlanSet (Some sh) (breq\<lparr>rq_items := Some (xs @ ys)\<rparr>)))"
    if "trim (sh (''A'', r')) \<noteq> [] \<and> trim (sh (wc_time week, r')) \<noteq> []
      \<and> (trim (sh (wc_plan week, r')) = [] \<or> item_overwrite (rq_overwrite breq) it)
      \<and> Item_ok (wc_plan week, r')
          \<notin> set (results_of (fst (plannerPlanSet (Some sh) (breq\<lparr>rq_items := Some ys\<rparr>))))"
  proof -
    from that o have "fst ?o = Item_ok (wc_plan week, r')" by auto
    from batch_accept [OF assms(7) this] that show ?thesis by simp
  qed
  from rs(1,2) entry rejected accepted
    single_eval [OF assms(3) assms(4) assms(1) assms(5) assms(6) assms(2)]
  show ?thesis by blast
qed

theorem plan_write_preconditions_witness:
  "plannerPlanSet (Some sample_sheet) overwrite_req
     = (Ok_single (''H'', 4), Some (sample_sheet((''H'', 4) := ascii ''41-60'')))
   \<and> (\<exists>rs. fst (plannerPlanSet (Some sample_sheet) (no_req\<lparr>rq_items := Some [book_item]\<rparr>))
          = Ok_batch rs
        \<and> length rs = length [book_item]
        \<and> rs ! 0 = Item_err ALREADY_EXISTS (Some (''H'', 5)))
   \<and> snd (plannerPlanSet (Some sample_sheet) (no_req\<lparr>rq_items := Some [book_item]\<rparr>))
       = snd (plannerPlanSet (Some sample_sheet) (no_req\<lparr>rq_items := Some []\<rparr>))
   \<and> (\<exists>rs. fst (plannerPlanSet (Some sample_sheet)
               (no_req\<lparr>rq_items := Some [long_item 1, week3_item, week6_item]\<rparr>)) = Ok_batch rs
        \<and> length rs = length [long_item 1, week3_item, week6_item]
        \<and> rs ! length [long_item 1] = Item_ok (''X'', 4))
   \<and> snd (plannerPlanSet (Some sample_sheet)
        (no_req\<lparr>rq_items := Some [long_item 1, week3_item, week6_item]\<rparr>))
       = map_option (\<lambda>s. s((''X'', 4) := ascii ''41-60''))
           (snd (plannerPlanSet (Some sample_sheet)
             (no_req\<lparr>rq_items := Some [long_item 1, week6_item]\<rparr>)))"
proof -
  have h1: "(1::int) \<in> {1..5}" by simp
  have h2: "WEEK_COLUMNS ! 0 = WEEK_COLUMNS ! nat (1 - 1)" by simp
  have h3: "rq_items overwrite_req = None"
    and h4: "rq_week_index overwrite_req = Some 1"
    and h5: "length (str_or_empty (rq_plan_text overwrite_req)) \<le> 52"
    and h6: "resolve_row_single sample_sheet overwrite_req = Some 4"
    by (simp_all add: overwrite_req_def request_defs resolve_row_single_def ascii_def)
  have h7: "rq_items (no_req\<lparr>rq_items := Some [book_item]\<rparr>) = Some ([] @ book_item # [])"
    and h8: "it_week_index book_item = Some 1"
    and h9: "length (str_or_empty (it_plan_text book_item)) \<le> 52"
    by (simp_all add: book_item_def request_defs ascii_def)
  have h10: "resolve_row_batch (build_book_row_map (readABCD sample_sheet) 4 Map.empty) book_item = 5"
    using sample_book_row by (simp add: resolve_row_batch_def book_item_def request_defs ascii_def)
  have h11: "(5::int) \<noteq> 0" by simp
  have g1: "(3::int) \<in> {1..5}" by simp
  have g2: "WEEK_COLUMNS ! 2 = WEEK_COLUMNS ! nat (3 - 1)" by simp
  have g3: "rq_items (overwrite_req\<lparr>rq_week_index := Some 3\<rparr>) = None"
    and g4: "rq_week_index (overwrite_req\<lparr>rq_week_index := Some 3\<rparr>) = Some 3"
    and g5: "length (str_or_empty (rq_plan_text (overwrite_req\<lparr>rq_week_index := Some 3\<rparr>))) \<le> 52"
    and g6: "resolve_row_single sample_sheet (overwrite_req\<lparr>rq_week_index := Some 3\<rparr>) = Some 4"
    by (simp_all add: overwrite_req_def request_defs resolve_row_single_def ascii_def)
  have g7: "rq_items (no_req\<lparr>rq_items := Some [long_item 1, week3_item, week6_item]\<rparr>)
      = Some ([long_item 1] @ week3_item # [week6_item])"
    and g8: "it_week_index week3_item = Some 3"
    and g9: "length (str_or_empty (it_plan_text week3_item)) \<le> 52"
    by (simp_all add: week3_item_def request_defs ascii_def)
  have g10: "resolve_row_batch (build_book_row_map (readABCD sample_sheet) 4 Map.empty) week3_item = 4"
    by (simp add: resolve_row_batch_def week3_item_def request_defs)
  have g11: "(4::int) \<noteq> 0" by simp
  have later: "Item_ok (''X'', 4) \<notin> set (results_of (fst (plannerPlanSet (Some sample_sheet)
      (no_req\<lparr>rq_items := Some [long_item 1, week3_item, week6_item]\<rparr>
        \<lparr>rq_items := Some [week6_item]\<rparr>))))"
    by (simp add: batch_eval item_out_def check_item_def Let_def request_defs week6_item_def)
  from plan_write_preconditions [OF h1 h2 h3 h4 h5 h6 h7 h8 h9 h10 h11]
    plan_write_preconditions [OF g1 g2 g3 g4 g5 g6 g7 g8 g9 g10 g11] later
  show ?thesis
    by (simp add: sheet_defs overwrite_req_def book_item_def week3_item_def request_defs
        item_overwrite_def)
qed



section \<open>Properties of normalization and header matching\<close>

subsection \<open>Normalization\<close>

lemmas norm_defs = normalize_str_def headerKey_def nfkc_unit_def lower_unit_def trim_def is_ws_def
  ascii_def roman_numerals_def


lemma decimal_digits: "d \<in> set (decimal n) \<Longrightarrow> 48 \<le> d \<and> d \<le> 57"
proof (induction n rule: decimal.induct)
  case (1 n)
  then show ?case
    by (cases "n < 10") (auto simp: decimal.simps [of n])
qed










subsection \<open>\<open>pickCol\<close>\<close>

lemma index_from_none: "index_from k hs i = -1 \<longleftrightarrow> k \<notin> set hs"
  by (induction hs arbitrary: i) auto

lemma index_from_first:
  "k \<in> set hs \<Longrightarrow>
    \<exists>j < length hs. index_from k hs i = int (i + j) \<and> hs ! j = k \<and> (\<forall>j' < j. hs ! j' \<noteq> k)"
proof (induction hs arbitrary: i)
  case Nil
  then show ?case by simp
next
  case (Cons h hs)
  show ?case
  proof (cases "h = k")
    case True
    then show ?thesis by (intro exI [of _ 0]) simp
  next
    case False
    with Cons.prems have "k \<in> set hs" by simp
    from Cons.IH [OF this, of "Suc i"] obtain j where
      j: "j < length hs" "index_from k hs (Suc i) = int (Suc i + j)" "hs ! j = k"
        "\<forall>j' < j. hs ! j' \<noteq> k"
      by blast
    with False show ?thesis
      by (intro exI [of _ "Suc j"]) (auto simp: nth_Cons')
  qed
qed

lemma pick_from_none:
  "pick_from keys cs = -1 \<longleftrightarrow> (\<forall>c \<in> set cs. headerKey c \<notin> set keys)"
proof (induction cs)
  case Nil
  then show ?case by simp
next
  case (Cons c cs)
  show ?case
  proof (cases "headerKey c \<in> set keys")
    case True
    from index_from_first [OF this, of 0] have "0 \<le> index_from (headerKey c) keys 0" by auto
    with True show ?thesis by auto
  next
    case False
    then have "index_from (headerKey c) keys 0 = -1" by (simp add: index_from_none)
    with False Cons.IH show ?thesis by simp
  qed
qed

lemma pick_from_first:
  "pick_from keys cs \<noteq> -1 \<Longrightarrow>
    \<exists>j < length cs. headerKey (cs ! j) \<in> set keys
        \<and> (\<forall>j' < j. headerKey (cs ! j') \<notin> set keys)
        \<and> pick_from keys cs = index_from (headerKey (cs ! j)) keys 0"
proof (induction cs)
  case Nil
  then show ?case by simp
next
  case (Cons c cs)
  show ?case
  proof (cases "headerKey c \<in> set keys")
    case True
    from index_from_first [OF this, of 0] have "0 \<le> index_from (headerKey c) keys 0" by auto
    with True show ?thesis by (intro exI [of _ 0]) simp
  next
    case False
    then have n: "index_from (headerKey c) keys 0 = -1" by (simp add: index_from_none)
    with Cons.prems have "pick_from keys cs \<noteq> -1" by simp
    from Cons.IH [OF this] obtain j where
      j: "j < length cs" "headerKey (cs ! j) \<in> set keys"
        "\<forall>j' < j. headerKey (cs ! j') \<notin> set keys"
        "pick_from keys cs = index_from (headerKey (cs ! j)) keys 0"
      by blast
    with False n show ?thesis
      by (intro exI [of _ "Suc j"]) (auto simp: nth_Cons')
  qed
qed

lemmas header_defs = pickCol_def book_headers_def norm_defs sankousho_def tangen_fuka_def kyouka_def
  taitoru_def

lemma pickCol_title: "pickCol book_headers [taitoru, sankousho @ [21517], [26360, 21517]] = 1"
  by (simp add: header_defs)

text \<open>
  Claim C7, as the tests have it. \<open>pickCol\<close> is -1 when the headers or the candidates are
  empty, and exactly when no header has the key of a candidate. Otherwise it is the
  position of the first header that has the key of the first candidate, in candidate
  order, that any header matches. Keys are compared for equality, never as substrings.
\<close>

theorem pickCol_candidate_order:
  "pickCol [] cs = -1 \<and> pickCol hs [] = -1
   \<and> (pickCol hs cs = -1 \<longleftrightarrow> (\<forall>h \<in> set hs. \<forall>c \<in> set cs. headerKey h \<noteq> headerKey c))
   \<and> (pickCol hs cs \<noteq> -1 \<longrightarrow>
        (\<exists>i j. pickCol hs cs = int i \<and> i < length hs \<and> j < length cs
           \<and> headerKey (hs ! i) = headerKey (cs ! j)
           \<and> (\<forall>j' < j. \<forall>h \<in> set hs. headerKey h \<noteq> headerKey (cs ! j'))
           \<and> (\<forall>i' < i. headerKey (hs ! i') \<noteq> headerKey (cs ! j))))"
proof (intro conjI impI)
  show "pickCol [] cs = -1"
    by (simp add: pickCol_def pick_from_none)
  show "pickCol hs [] = -1"
    by (simp add: pickCol_def)
  have "(\<forall>c \<in> set cs. headerKey c \<notin> set (map headerKey hs))
      \<longleftrightarrow> (\<forall>h \<in> set hs. \<forall>c \<in> set cs. headerKey h \<noteq> headerKey c)"
    unfolding set_map image_iff by metis
  then show "pickCol hs cs = -1 \<longleftrightarrow> (\<forall>h \<in> set hs. \<forall>c \<in> set cs. headerKey h \<noteq> headerKey c)"
    by (simp only: pickCol_def pick_from_none)
next
  assume "pickCol hs cs \<noteq> -1"
  then have "pick_from (map headerKey hs) cs \<noteq> -1" by (simp add: pickCol_def)
  from pick_from_first [OF this] obtain j where
    j: "j < length cs" "headerKey (cs ! j) \<in> set (map headerKey hs)"
      "\<forall>j' < j. headerKey (cs ! j') \<notin> set (map headerKey hs)"
      "pick_from (map headerKey hs) cs = index_from (headerKey (cs ! j)) (map headerKey hs) 0"
    by blast
  from index_from_first [OF j(2), of 0] obtain i where
    i: "i < length hs" "index_from (headerKey (cs ! j)) (map headerKey hs) 0 = int i"
      "headerKey (hs ! i) = headerKey (cs ! j)"
      "\<forall>i' < i. map headerKey hs ! i' \<noteq> headerKey (cs ! j)"
    by auto
  have "\<forall>i' < i. headerKey (hs ! i') \<noteq> headerKey (cs ! j)"
    using i(1,4) by auto
  moreover have "\<forall>j' < j. \<forall>h \<in> set hs. headerKey h \<noteq> headerKey (cs ! j')"
    using j(3) unfolding set_map image_iff by metis
  ultimately show "\<exists>i j. pickCol hs cs = int i \<and> i < length hs \<and> j < length cs
           \<and> headerKey (hs ! i) = headerKey (cs ! j)
           \<and> (\<forall>j' < j. \<forall>h \<in> set hs. headerKey h \<noteq> headerKey (cs ! j'))
           \<and> (\<forall>i' < i. headerKey (hs ! i') \<noteq> headerKey (cs ! j))"
    using i(1,2,3) j(1,4) by (auto simp: pickCol_def)
qed

theorem pickCol_candidate_order_witness:
  "pickCol book_headers [taitoru, sankousho @ [21517], [26360, 21517]] \<noteq> -1
   \<and> (\<exists>i j. pickCol book_headers [taitoru, sankousho @ [21517], [26360, 21517]] = int i
         \<and> i < length book_headers \<and> j < length [taitoru, sankousho @ [21517], [26360, 21517]]
         \<and> headerKey (book_headers ! i) = headerKey ([taitoru, sankousho @ [21517], [26360, 21517]] ! j)
         \<and> (\<forall>j' < j. \<forall>h \<in> set book_headers.
               headerKey h \<noteq> headerKey ([taitoru, sankousho @ [21517], [26360, 21517]] ! j'))
         \<and> (\<forall>i' < i. headerKey (book_headers ! i')
               \<noteq> headerKey ([taitoru, sankousho @ [21517], [26360, 21517]] ! j)))"
proof -
  have ne: "pickCol book_headers [taitoru, sankousho @ [21517], [26360, 21517]] \<noteq> -1"
    by (simp add: pickCol_title)
  with pickCol_candidate_order [of "[taitoru, sankousho @ [21517], [26360, 21517]]" book_headers]
  show ?thesis by blast
qed

text \<open>
  Claim C7 as stated fails on the test "should find first match when multiple candidates
  exist": with the headers of the tests and the candidates "tangen-fuka", "sankousho-ID"
  the first header in header order that matches any candidate is the column 0, and the
  test asks for the column 3 of the first candidate.
\<close>

theorem pickCol_header_order_counterexample:
  "pickCol book_headers [tangen_fuka, sankousho @ ascii ''ID''] = 3
   \<and> pickColumn_header_order book_headers [tangen_fuka, sankousho @ ascii ''ID''] = 0"
  by (simp add: header_defs pickColumn_header_order_def)

section \<open>Properties of the student resolution\<close>

lemma search_rows_none:
  "(\<forall>i < n. row_student_id idxId (vals ! (r + i)) \<noteq> sid) \<Longrightarrow>
    search_rows sh vals sid idxId ip il r n = None"
proof (induction n arbitrary: r)
  case 0
  then show ?case by simp
next
  case (Suc n)
  from Suc.prems have "row_student_id idxId (vals ! r) \<noteq> sid" by force
  moreover have "\<forall>i < n. row_student_id idxId (vals ! (Suc r + i)) \<noteq> sid"
    using Suc.prems by auto
  ultimately show ?case using Suc.IH [of "Suc r"] by simp
qed

lemma search_rows_first:
  "sid \<noteq> [] \<Longrightarrow> k < n \<Longrightarrow> row_student_id idxId (vals ! (r + k)) = sid \<Longrightarrow>
    (\<forall>i < k. row_student_id idxId (vals ! (r + i)) \<noteq> sid) \<Longrightarrow>
    search_rows sh vals sid idxId ip il r n = planner_id_of_row sh vals ip il (r + k)"
proof (induction n arbitrary: r k)
  case 0
  then show ?case by simp
next
  case (Suc n)
  show ?case
  proof (cases k)
    case 0
    with Suc.prems show ?thesis by simp
  next
    case (Suc k')
    with Suc.prems have ne: "row_student_id idxId (vals ! r) \<noteq> sid" by force
    have "search_rows sh vals sid idxId ip il (Suc r) n
        = planner_id_of_row sh vals ip il (Suc r + k')"
      using Suc.prems Suc by (intro Suc.IH) auto
    with ne Suc show ?thesis by simp
  qed
qed

lemmas resolver_defs = STUDENT_ID_COLUMNS_def PLANNER_ID_COLUMNS_def PLANNER_LINK_COLUMNS_def
  PLANNER_LINK_KEYWORDS_def seito_def supiido_def purannaa_def supureddoshiito_def rinku_def
  sample_students_def sample_values_def sample_resolve_req_def sample_sheet_id_def cell_at_def
  row_student_id_def
  link_column_def planner_id_of_row_def extractSpreadsheetIdFromLink_def str_or_empty_def
  truthy_str_def

lemma sample_columns:
  "pickCol [seito @ ascii ''ID'', ascii ''PlannerLink''] STUDENT_ID_COLUMNS = 0
   \<and> pickCol [seito @ ascii ''ID'', ascii ''PlannerLink''] PLANNER_ID_COLUMNS = -1
   \<and> link_column [seito @ ascii ''ID'', ascii ''PlannerLink''] = 1"
  by (simp add: pickCol_def norm_defs resolver_defs)

lemma sample_url_id:
  "extractSpreadsheetIdFromUrl
     (ascii ''https://docs.google.com/spreadsheets/d/'' @ sample_sheet_id @ ascii ''/edit'')
   = Some sample_sheet_id"
  by (simp add: extractSpreadsheetIdFromUrl.simps is_id_char_def is_digit_def ascii_def
      sample_sheet_id_def)

text \<open>
  Claim C10, as the code has it. The function is total. A truthy \<open>spreadsheet_id\<close> is
  returned whatever the students file gives, also when it throws. Otherwise the result is
  null when the student id is blank after trimming, when opening the file or sheet or
  reading the values throws or there is no sheet, and when no row has the id of the
  student. When there is such a row, the first one decides: the result is its planner id
  cell when the column exists and the cell is not blank, otherwise the id extracted from
  its link cell, and null when there is neither. A rich text read of the link cell
  that throws is caught by \<open>extractSpreadsheetIdFromLink\<close>, which then extracts the id from
  the plain text of the cell.
\<close>

theorem resolve_spreadsheet_id_cases:
  "(truthy_str (rr_spreadsheet_id req) \<longrightarrow>
      resolveSpreadsheetIdByStudent req students = Some (str_or_empty (rr_spreadsheet_id req)))
   \<and> (\<not> truthy_str (rr_spreadsheet_id req) \<longrightarrow>
        (trim (str_or_empty (rr_student_id req)) = [] \<longrightarrow>
           resolveSpreadsheetIdByStudent req students = None)
      \<and> (students = Throws \<or> students = Returns None
           \<or> (\<exists>sh. students = Returns (Some sh) \<and> ss_values sh = Throws) \<longrightarrow>
           resolveSpreadsheetIdByStudent req students = None)
      \<and> (\<forall>sh vals. students = Returns (Some sh) \<and> ss_values sh = Returns vals \<longrightarrow>
           ((\<forall>r. 1 \<le> r \<and> r < length vals \<longrightarrow>
                row_student_id (pickCol (vals ! 0) STUDENT_ID_COLUMNS) (vals ! r)
                  \<noteq> trim (str_or_empty (rr_student_id req))) \<longrightarrow>
              resolveSpreadsheetIdByStudent req students = None)
         \<and> (\<forall>k. trim (str_or_empty (rr_student_id req)) \<noteq> [] \<and> 1 \<le> k \<and> k < length vals
                \<and> row_student_id (pickCol (vals ! 0) STUDENT_ID_COLUMNS) (vals ! k)
                  = trim (str_or_empty (rr_student_id req))
                \<and> (\<forall>r. 1 \<le> r \<and> r < k \<longrightarrow>
                      row_student_id (pickCol (vals ! 0) STUDENT_ID_COLUMNS) (vals ! r)
                        \<noteq> trim (str_or_empty (rr_student_id req))) \<longrightarrow>
              resolveSpreadsheetIdByStudent req students
                = planner_id_of_row sh vals (pickCol (vals ! 0) PLANNER_ID_COLUMNS)
                    (link_column (vals ! 0)) k
              \<and> ((pickCol (vals ! 0) PLANNER_ID_COLUMNS < 0
                    \<or> trim (cell_at (vals ! k) (nat (pickCol (vals ! 0) PLANNER_ID_COLUMNS))) = [])
                  \<and> (link_column (vals ! 0) < 0
                    \<or> extractSpreadsheetIdFromLink sh k (nat (link_column (vals ! 0))) vals = None)
                  \<longrightarrow> resolveSpreadsheetIdByStudent req students = None)
              \<and> (ss_link_url sh k (nat (link_column (vals ! 0))) = Throws \<longrightarrow>
                    extractSpreadsheetIdFromLink sh k (nat (link_column (vals ! 0))) vals
                      = extractSpreadsheetIdFromUrl
                          (trim (cell_at (vals ! k) (nat (link_column (vals ! 0)))))))))"
proof (intro conjI impI allI)
  assume "truthy_str (rr_spreadsheet_id req)"
  then show "resolveSpreadsheetIdByStudent req students = Some (str_or_empty (rr_spreadsheet_id req))"
    by (simp add: resolveSpreadsheetIdByStudent_def)
next
  assume "\<not> truthy_str (rr_spreadsheet_id req)" "trim (str_or_empty (rr_student_id req)) = []"
  then show "resolveSpreadsheetIdByStudent req students = None"
    by (simp add: resolveSpreadsheetIdByStudent_def)
next
  assume "\<not> truthy_str (rr_spreadsheet_id req)"
    "students = Throws \<or> students = Returns None
      \<or> (\<exists>sh. students = Returns (Some sh) \<and> ss_values sh = Throws)"
  then show "resolveSpreadsheetIdByStudent req students = None"
    by (auto simp: resolveSpreadsheetIdByStudent_def Let_def)
next
  fix sh vals
  let ?sid = "trim (str_or_empty (rr_student_id req))"
  let ?idx = "pickCol (vals ! 0) STUDENT_ID_COLUMNS"
  assume nt: "\<not> truthy_str (rr_spreadsheet_id req)"
    and st: "students = Returns (Some sh) \<and> ss_values sh = Returns vals"
  {
    assume nf: "\<forall>r. 1 \<le> r \<and> r < length vals \<longrightarrow> row_student_id ?idx (vals ! r) \<noteq> ?sid"
    then have "\<forall>i < length vals - 1. row_student_id ?idx (vals ! (1 + i)) \<noteq> ?sid"
      by auto
    from search_rows_none [OF this] nt st
    show "resolveSpreadsheetIdByStudent req students = None"
      by (simp add: resolveSpreadsheetIdByStudent_def Let_def)
  }
  fix k
  assume f: "?sid \<noteq> [] \<and> 1 \<le> k \<and> k < length vals \<and> row_student_id ?idx (vals ! k) = ?sid
    \<and> (\<forall>r. 1 \<le> r \<and> r < k \<longrightarrow> row_student_id ?idx (vals ! r) \<noteq> ?sid)"
  then have "k - 1 < length vals - 1" "row_student_id ?idx (vals ! (1 + (k - 1))) = ?sid"
    "\<forall>i < k - 1. row_student_id ?idx (vals ! (1 + i)) \<noteq> ?sid"
    by auto
  from search_rows_first [OF _ this, of sh "pickCol (vals ! 0) PLANNER_ID_COLUMNS" "link_column (vals ! 0)"] f
  have s: "search_rows sh vals ?sid ?idx (pickCol (vals ! 0) PLANNER_ID_COLUMNS)
      (link_column (vals ! 0)) 1 (length vals - 1)
      = planner_id_of_row sh vals (pickCol (vals ! 0) PLANNER_ID_COLUMNS) (link_column (vals ! 0)) k"
    by simp
  from f have "\<not> length vals < 2" by auto
  with s nt st f
  show r: "resolveSpreadsheetIdByStudent req students
      = planner_id_of_row sh vals (pickCol (vals ! 0) PLANNER_ID_COLUMNS) (link_column (vals ! 0)) k"
    by (simp add: resolveSpreadsheetIdByStudent_def Let_def)
  assume "(pickCol (vals ! 0) PLANNER_ID_COLUMNS < 0
        \<or> trim (cell_at (vals ! k) (nat (pickCol (vals ! 0) PLANNER_ID_COLUMNS))) = [])
      \<and> (link_column (vals ! 0) < 0
        \<or> extractSpreadsheetIdFromLink sh k (nat (link_column (vals ! 0))) vals = None)"
  then have "planner_id_of_row sh vals (pickCol (vals ! 0) PLANNER_ID_COLUMNS)
      (link_column (vals ! 0)) k = None"
    by (auto simp: planner_id_of_row_def Let_def)
  with r show "resolveSpreadsheetIdByStudent req students = None" by simp
next
  fix sh :: student_sheet and vals :: "jstr list list" and k :: nat
  assume "ss_link_url sh k (nat (link_column (vals ! 0))) = Throws"
  then show "extractSpreadsheetIdFromLink sh k (nat (link_column (vals ! 0))) vals
      = extractSpreadsheetIdFromUrl (trim (cell_at (vals ! k) (nat (link_column (vals ! 0)))))"
    by (simp add: extractSpreadsheetIdFromLink_def)
qed

theorem resolve_spreadsheet_id_cases_witness:
  "resolveSpreadsheetIdByStudent direct_req Throws = Some (ascii ''sheet-1'')
   \<and> resolveSpreadsheetIdByStudent sample_resolve_req (Returns (Some sample_students))
     = planner_id_of_row sample_students sample_values
         (pickCol (sample_values ! 0) PLANNER_ID_COLUMNS) (link_column (sample_values ! 0)) 1"
proof -
  let ?sid = "trim (str_or_empty (rr_student_id sample_resolve_req))"
  let ?idx = "pickCol (sample_values ! 0) STUDENT_ID_COLUMNS"
  have a: "truthy_str (rr_spreadsheet_id direct_req)"
    by (simp add: direct_req_def truthy_str_def ascii_def)
  have b: "\<not> truthy_str (rr_spreadsheet_id sample_resolve_req)"
    by (simp add: sample_resolve_req_def truthy_str_def)
  have st: "Returns (Some sample_students) = Returns (Some sample_students)
      \<and> ss_values sample_students = Returns sample_values"
    by (simp add: sample_students_def sample_values_def)
  have sid: "?sid = ascii ''S001''"
    by (simp add: sample_resolve_req_def str_or_empty_def trim_def ascii_def is_ws_def)
  have row: "row_student_id ?idx (sample_values ! 1) = ascii ''S001''"
    using sample_columns
    by (simp add: sample_values_def row_student_id_def cell_at_def)
      (simp add: trim_def ascii_def is_ws_def)
  have f: "?sid \<noteq> [] \<and> 1 \<le> (1::nat) \<and> 1 < length sample_values
      \<and> row_student_id ?idx (sample_values ! 1) = ?sid
      \<and> (\<forall>r. 1 \<le> r \<and> r < (1::nat) \<longrightarrow> row_student_id ?idx (sample_values ! r) \<noteq> ?sid)"
    using sid row by (simp add: sample_values_def ascii_def)
  from resolve_spreadsheet_id_cases [of direct_req Throws] a
  have 1: "resolveSpreadsheetIdByStudent direct_req Throws = Some (ascii ''sheet-1'')"
    by (simp add: direct_req_def str_or_empty_def)
  from resolve_spreadsheet_id_cases [of sample_resolve_req "Returns (Some sample_students)"] b st f
  have 2: "resolveSpreadsheetIdByStudent sample_resolve_req (Returns (Some sample_students))
     = planner_id_of_row sample_students sample_values
         (pickCol (sample_values ! 0) PLANNER_ID_COLUMNS) (link_column (sample_values ! 0)) 1"
    by blast
  from 1 2 show ?thesis by simp
qed

text \<open>
  Claim C10 as stated fails where it says that the result is null whenever a sheet access
  throws: for the sample students sheet every rich text read throws, and the id is
  resolved from the plain text of the link cell.
\<close>

theorem rich_text_throw_counterexample:
  "ss_link_url sample_students 1 1 = Throws
   \<and> resolveSpreadsheetIdByStudent sample_resolve_req (Returns (Some sample_students))
       = Some sample_sheet_id"
proof -
  have "trim (ascii '' S001 '') = ascii ''S001''"
    by (simp add: trim_def ascii_def is_ws_def)
  moreover have "trim (ascii ''S001'') = ascii ''S001''"
    by (simp add: trim_def ascii_def is_ws_def)
  moreover have "trim (ascii ''https://docs.google.com/spreadsheets/d/'' @ sample_sheet_id @ ascii ''/edit'')
      = ascii ''https://docs.google.com/spreadsheets/d/'' @ sample_sheet_id @ ascii ''/edit''"
    by (simp add: trim_def ascii_def is_ws_def sample_sheet_id_def)
  moreover have "ascii ''S001'' \<noteq> []" by (simp add: ascii_def)
  ultimately show ?thesis
    using sample_columns sample_url_id
    by (simp add: resolveSpreadsheetIdByStudent_def Let_def sample_students_def sample_values_def
        sample_resolve_req_def str_or_empty_def truthy_str_def row_student_id_def cell_at_def
        planner_id_of_row_def extractSpreadsheetIdFromLink_def numeral_2_eq_2)
qed

section \<open>Properties of the next id\<close>

lemma set_map_filter_eq: "set (List.map_filter f xs) = {y. \<exists>x \<in> set xs. f x = Some y}"
  by (induction xs) (auto split: option.splits)

lemma max_suffix_fold:
  "max_suffix p c rows m
    = fold max (List.map_filter (\<lambda>row. id_suffix p (cell_of_row row c)) rows) m"
  by (induction rows arbitrary: m) (auto simp: List.map_filter_simps max.commute split: option.splits)

lemma max_suffix_Max:
  "max_suffix p c (tl allRows) 0 = Max (insert 0 (suffixes p allRows c))"
proof -
  let ?xs = "List.map_filter (\<lambda>row. id_suffix p (cell_of_row row c)) (tl allRows)"
  have "set ?xs = suffixes p allRows c"
    by (simp add: suffixes_def set_map_filter_eq)
  moreover have "fold max ?xs 0 = Max (set (0 # ?xs))"
    by (simp only: Max.set_eq_fold)
  ultimately show ?thesis by (simp add: max_suffix_fold)
qed

lemma finite_suffixes: "finite (suffixes p allRows c)"
proof -
  have "suffixes p allRows c
      = set (List.map_filter (\<lambda>row. id_suffix p (cell_of_row row c)) (tl allRows))"
    by (simp add: suffixes_def set_map_filter_eq)
  then show ?thesis by simp
qed

lemma digits_value_snoc: "digits_value (ds @ [d]) = 10 * digits_value ds + (d - 48)"
  by (simp add: digits_value_def)

lemma digits_value_decimal: "digits_value (decimal n) = n"
proof (induction n rule: decimal.induct)
  case (1 n)
  show ?case
  proof (cases "n < 10")
    case True
    then show ?thesis by (simp add: decimal.simps [of n] digits_value_def)
  next
    case False
    with 1 have "digits_value (decimal (n div 10)) = n div 10" by simp
    with False show ?thesis by (simp add: decimal.simps [of n] digits_value_snoc)
  qed
qed

lemma digits_value_zeros: "digits_value (replicate k 48 @ ds) = digits_value ds"
proof -
  have "foldl (\<lambda>a c. 10 * a + (c - 48)) 0 (replicate k 48) = (0::nat)"
    by (induction k) simp_all
  then show ?thesis by (simp add: digits_value_def)
qed

lemma decimal_all_digits: "list_all is_digit (decimal n)"
  using decimal_digits by (auto simp: list_all_iff is_digit_def)

lemma decimal_nonempty: "decimal n \<noteq> []"
  by (cases "n < 10") (simp_all add: decimal.simps [of n])

lemma length_decimal:
  "length (decimal n) = (if n < 10 then 1 else Suc (length (decimal (n div 10))))"
  by (simp add: decimal.simps [of n])

lemma length_decimal_small: "n < 1000 \<Longrightarrow> length (decimal n) \<le> 3"
  by (simp add: length_decimal [of n] length_decimal [of "n div 10"]
      length_decimal [of "n div 10 div 10"])

lemma length_decimal_large: "100 \<le> n \<Longrightarrow> 3 \<le> length (decimal n)"
  by (simp add: length_decimal [of n] length_decimal [of "n div 10"]
      length_decimal [of "n div 10 div 10"])

lemma pad3_props:
  "digits_value (pad3 (decimal n)) = n \<and> 3 \<le> length (pad3 (decimal n))
   \<and> list_all is_digit (pad3 (decimal n))
   \<and> (if n < 1000 then length (pad3 (decimal n)) = 3 else pad3 (decimal n) = decimal n)"
  using length_decimal_small [of n] length_decimal_large [of n] decimal_all_digits [of n]
  by (auto simp: pad3_def digits_value_zeros digits_value_decimal is_digit_def list_all_iff)

lemma id_suffix_new:
  "id_suffix p (Str (p @ pad3 (decimal n))) = Some n"
  using pad3_props [of n] by (auto simp: id_suffix_def)

lemma max_suffix_no_column:
  "c < 0 \<or> (\<forall>row \<in> set rows. length row \<le> nat c) \<Longrightarrow> max_suffix p c rows m = m"
  by (induction rows arbitrary: m) (auto simp: cell_of_row_def id_suffix_def)

lemmas id_defs = nextIdForPrefix_def math_rows_def big_rows_def id_header_def cell_of_row_def
  id_suffix_def pad3_def digits_value_def is_digit_def ascii_def decimal.simps numeral_2_eq_2

lemma next_id_examples:
  "nextIdForPrefix (ascii ''gMB'') math_rows 0 = ascii ''gMB006''
   \<and> nextIdForPrefix (ascii ''gEC'') math_rows 0 = ascii ''gEC008''
   \<and> nextIdForPrefix (ascii ''gJH'') math_rows 0 = ascii ''gJH001''
   \<and> nextIdForPrefix (ascii ''gMB'') [id_header] 0 = ascii ''gMB001''
   \<and> nextIdForPrefix (ascii ''gMB'') big_rows 0 = ascii ''gMB1000''"
  by (simp add: id_defs)

text \<open>
  Claim C8. The next id is the prefix followed by the number one above the maximum
  numeric suffix of the data rows (0 when there is none), written with at least three
  digits: zero-padded to exactly three below 1000, and all its digits without padding
  from 1000 on. The header row does not count. A negative or out-of-range id column
  gives the prefix and \<open>001\<close>; a cell that is not a string or is blank has no suffix.
  As a consequence the next id is the id of no data row.
\<close>

theorem nextIdForPrefix_spec:
  "nextIdForPrefix prefix allRows c
     = prefix @ pad3 (decimal (Suc (Max (insert 0 (suffixes prefix allRows c)))))
   \<and> nextIdForPrefix prefix (header # rows) c = nextIdForPrefix prefix (header' # rows) c
   \<and> digits_value (pad3 (decimal n)) = n \<and> 3 \<le> length (pad3 (decimal n))
   \<and> (if n < 1000 then length (pad3 (decimal n)) = 3 else pad3 (decimal n) = decimal n)
   \<and> (c < 0 \<or> (\<forall>row \<in> set (tl allRows). length row \<le> nat c) \<longrightarrow>
        nextIdForPrefix prefix allRows c = prefix @ ascii ''001'')
   \<and> id_suffix prefix Other = None \<and> id_suffix prefix (Str []) = None
   \<and> (\<forall>row \<in> set (tl allRows). cell_of_row row c \<noteq> Str (nextIdForPrefix prefix allRows c))"
proof (intro conjI impI ballI)
  show eq: "nextIdForPrefix prefix allRows c
     = prefix @ pad3 (decimal (Suc (Max (insert 0 (suffixes prefix allRows c)))))"
    by (simp add: nextIdForPrefix_def max_suffix_Max)
  show "nextIdForPrefix prefix (header # rows) c = nextIdForPrefix prefix (header' # rows) c"
    by (simp add: nextIdForPrefix_def)
  show "digits_value (pad3 (decimal n)) = n" "3 \<le> length (pad3 (decimal n))"
    "if n < 1000 then length (pad3 (decimal n)) = 3 else pad3 (decimal n) = decimal n"
    using pad3_props [of n] by simp_all
  show "id_suffix prefix Other = None" "id_suffix prefix (Str []) = None"
    by (simp_all add: id_suffix_def)
  {
    assume "c < 0 \<or> (\<forall>row \<in> set (tl allRows). length row \<le> nat c)"
    from max_suffix_no_column [OF this, of prefix 0]
    show "nextIdForPrefix prefix allRows c = prefix @ ascii ''001''"
      by (simp add: nextIdForPrefix_def pad3_def decimal.simps ascii_def numeral_2_eq_2)
  }
  fix row
  assume row: "row \<in> set (tl allRows)"
  let ?M = "Max (insert 0 (suffixes prefix allRows c))"
  show "cell_of_row row c \<noteq> Str (nextIdForPrefix prefix allRows c)"
  proof
    assume "cell_of_row row c = Str (nextIdForPrefix prefix allRows c)"
    with eq have "id_suffix prefix (cell_of_row row c) = Some (Suc ?M)"
      by (simp add: id_suffix_new)
    with row have "Suc ?M \<in> suffixes prefix allRows c"
      by (auto simp: suffixes_def)
    then have "Suc ?M \<le> ?M"
      using finite_suffixes [of prefix allRows c] by (intro Max_ge) auto
    then show False by simp
  qed
qed

theorem nextIdForPrefix_spec_witness:
  "nextIdForPrefix (ascii ''gMB'') math_rows (-1) = ascii ''gMB'' @ ascii ''001''
   \<and> cell_of_row (math_rows ! 1) 0 \<noteq> Str (nextIdForPrefix (ascii ''gMB'') math_rows 0)
   \<and> nextIdForPrefix (ascii ''gMB'') math_rows 0 = ascii ''gMB006''"
proof -
  have h: "(-1::int) < 0 \<or> (\<forall>row \<in> set (tl math_rows). length row \<le> nat (-1))"
    by simp
  have m: "math_rows ! 1 \<in> set (tl math_rows)"
    by (simp add: math_rows_def)
  from nextIdForPrefix_spec [of "ascii ''gMB''" math_rows "-1"] h
  have 1: "nextIdForPrefix (ascii ''gMB'') math_rows (-1) = ascii ''gMB'' @ ascii ''001''"
    by blast
  from nextIdForPrefix_spec [of "ascii ''gMB''" math_rows 0] m
  have 2: "cell_of_row (math_rows ! 1) 0 \<noteq> Str (nextIdForPrefix (ascii ''gMB'') math_rows 0)"
    by blast
  from 1 2 next_id_examples show ?thesis by simp
qed


section \<open>Properties of the preview/confirm protocol\<close>

lemma confirm_unknown_or_expired:
  "fst st (ns, token) = None \<or> (\<exists>p. fst st (ns, token) = Some p \<and> pd_expiry p < now) \<Longrightarrow>
    confirm st ns target token now = (Inl CONFIRM_EXPIRED, st)"
  by (auto simp: confirm_def)

lemma confirm_mismatch:
  "fst st (ns, token) = Some p \<Longrightarrow> now \<le> pd_expiry p \<Longrightarrow> pd_target p \<noteq> target \<Longrightarrow>
    confirm st ns target token now = (Inl CONFIRM_MISMATCH, st)"
  by (auto simp: confirm_def)

lemma confirm_consumes:
  "confirm st ns target token now = (Inr (), st') \<Longrightarrow> fst st' (ns, token) = None"
  by (auto simp: confirm_def split: option.splits if_splits)

text \<open>
  Claim C1. For every namespace and target id: a token that is unknown, or whose pending
  change is past its expiry, fails with \<open>CONFIRM_EXPIRED\<close>; a token that was issued for
  another target fails with \<open>CONFIRM_MISMATCH\<close> (within its time to live; after it, with
  \<open>CONFIRM_EXPIRED\<close>); and after a successful confirm every replay of the token fails
  with \<open>CONFIRM_EXPIRED\<close> and leaves the cache and the store as they are, so the change
  is not applied again.
\<close>

theorem confirm_token_single_use:
  "(fst st (ns, token) = None \<or> (\<exists>p. fst st (ns, token) = Some p \<and> pd_expiry p < now) \<longrightarrow>
      confirm st ns target token now = (Inl CONFIRM_EXPIRED, st))
   \<and> (\<forall>p. fst st (ns, token) = Some p \<and> now \<le> pd_expiry p \<and> pd_target p \<noteq> target \<longrightarrow>
        confirm st ns target token now = (Inl CONFIRM_MISMATCH, st))
   \<and> (\<forall>st0 issued payload t0. snd st0 issued \<noteq> None \<and> issued \<noteq> target
          \<and> st = snd (propose st0 ns issued payload token t0) \<longrightarrow>
        confirm st ns target token now
          = (Inl (if t0 + CONFIRM_TTL < now then CONFIRM_EXPIRED else CONFIRM_MISMATCH), st))
   \<and> (\<forall>st'. confirm st ns target token now = (Inr (), st') \<longrightarrow>
        (\<forall>now'. confirm st' ns target token now' = (Inl CONFIRM_EXPIRED, st')))"
proof (intro conjI impI allI)
  assume "fst st (ns, token) = None \<or> (\<exists>p. fst st (ns, token) = Some p \<and> pd_expiry p < now)"
  then show "confirm st ns target token now = (Inl CONFIRM_EXPIRED, st)"
    by (rule confirm_unknown_or_expired)
next
  fix p
  assume "fst st (ns, token) = Some p \<and> now \<le> pd_expiry p \<and> pd_target p \<noteq> target"
  then show "confirm st ns target token now = (Inl CONFIRM_MISMATCH, st)"
    by (simp add: confirm_mismatch)
next
  fix st0 :: "preview_cache \<times> entity_store" and issued payload t0
  assume "snd st0 issued \<noteq> None \<and> issued \<noteq> target
    \<and> st = snd (propose st0 ns issued payload token t0)"
  then show "confirm st ns target token now
      = (Inl (if t0 + CONFIRM_TTL < now then CONFIRM_EXPIRED else CONFIRM_MISMATCH), st)"
    by (auto simp: confirm_def propose_def)
next
  fix st' now'
  assume "confirm st ns target token now = (Inr (), st')"
  then have "fst st' (ns, token) = None" by (rule confirm_consumes)
  then show "confirm st' ns target token now' = (Inl CONFIRM_EXPIRED, st')"
    by (simp add: confirm_unknown_or_expired)
qed

lemmas preview_defs = sample_pending_def sample_books_def propose_def confirm_def apply_change_def
  CONFIRM_TTL_def ascii_def

lemma sample_confirm:
  "confirm sample_pending (ascii ''books_update'') (ascii ''gM001'') (ascii ''token-1'') 1200
    = (Inr (),
       (Map.empty,
        sample_books(ascii ''gM001'' \<mapsto> [ascii ''title'' \<mapsto> ascii ''Blue Chart 1A revised''])))"
  by (auto simp: preview_defs fun_eq_iff map_add_def)

theorem confirm_token_single_use_witness:
  "confirm sample_pending (ascii ''books_update'') (ascii ''gM001'') (ascii ''unknown'') 1200
     = (Inl CONFIRM_EXPIRED, sample_pending)
   \<and> confirm sample_pending (ascii ''books_update'') (ascii ''gM001'') (ascii ''token-1'') 1301
     = (Inl CONFIRM_EXPIRED, sample_pending)
   \<and> confirm sample_pending (ascii ''books_update'') (ascii ''gE001'') (ascii ''token-1'') 1200
     = (Inl CONFIRM_MISMATCH, sample_pending)
   \<and> confirm (snd (confirm sample_pending (ascii ''books_update'') (ascii ''gM001'')
                (ascii ''token-1'') 1200))
       (ascii ''books_update'') (ascii ''gM001'') (ascii ''token-1'') 1201
     = (Inl CONFIRM_EXPIRED,
        snd (confirm sample_pending (ascii ''books_update'') (ascii ''gM001'') (ascii ''token-1'') 1200))"
proof -
  let ?ns = "ascii ''books_update''" and ?tok = "ascii ''token-1''" and ?id = "ascii ''gM001''"
  let ?p = "\<lparr>pd_target = ?id, pd_payload = Update [(ascii ''title'', ascii ''Blue Chart 1A revised'')],
    pd_expiry = 1300\<rparr>"
  have c: "fst sample_pending (?ns, ?tok) = Some ?p"
    by (simp add: preview_defs)
  have u: "fst sample_pending (?ns, ascii ''unknown'') = None"
    by (simp add: preview_defs)
  have e: "\<exists>p. fst sample_pending (?ns, ?tok) = Some p \<and> pd_expiry p < 1301"
    using c by simp
  have m: "fst sample_pending (?ns, ?tok) = Some ?p \<and> 1200 \<le> pd_expiry ?p
      \<and> pd_target ?p \<noteq> ascii ''gE001''"
    using c by (simp add: ascii_def)
  have s: "confirm sample_pending ?ns ?id ?tok 1200
      = (Inr (), snd (confirm sample_pending ?ns ?id ?tok 1200))"
    by (simp add: sample_confirm)
  from confirm_token_single_use [of sample_pending ?ns "ascii ''unknown''" 1200 ?id] u
  have 1: "confirm sample_pending ?ns ?id (ascii ''unknown'') 1200 = (Inl CONFIRM_EXPIRED, sample_pending)"
    by blast
  from confirm_token_single_use [of sample_pending ?ns ?tok 1301 ?id] e
  have 2: "confirm sample_pending ?ns ?id ?tok 1301 = (Inl CONFIRM_EXPIRED, sample_pending)"
    by blast
  from confirm_token_single_use [of sample_pending ?ns ?tok 1200 "ascii ''gE001''"] m
  have 3: "confirm sample_pending ?ns (ascii ''gE001'') ?tok 1200 = (Inl CONFIRM_MISMATCH, sample_pending)"
    by blast
  from confirm_token_single_use [of sample_pending ?ns ?tok 1200 ?id] s
  have 4: "confirm (snd (confirm sample_pending ?ns ?id ?tok 1200)) ?ns ?id ?tok 1201
      = (Inl CONFIRM_EXPIRED, snd (confirm sample_pending ?ns ?id ?tok 1200))"
    by blast
  from 1 2 3 4 show ?thesis by simp
qed


end
